theory Spec2Isabelle
  imports Complex_Main "HOL-Library.Word" "HOL-Library.AList" "HOL-Library.Sublist"
    "HOL-Library.Char_ord" "HOL-Library.List_Lexorder"
begin

section \<open>Shared data: JSON values, decimal rendering, clock readings\<close>

text \<open>
  The kernel passes \<^verbatim>\<open>nlohmann::json\<close> values around. An object is a
  \<^verbatim>\<open>std::map\<close> from strings to values; it is modelled by an association list
  that is read with \<open>map_of\<close>. Numbers are the integers the kernel writes itself
  (timestamps, ids).
\<close>

datatype json =
    JNull
  | JBool bool
  | JInt int
  | JString string
  | JArray "json list"
  | JObject "(string \<times> json) list"

text \<open>
  Every exception that escapes a handler is caught by its \<^verbatim>\<open>catch (const
  std::exception&)\<close>; the model keeps the two kinds that the JSON library raises.
\<close>

datatype error = ParseError | TypeError

text \<open>\<^verbatim>\<open>std::to_string\<close> of an unsigned number: its decimal digits.\<close>

fun to_string :: "nat \<Rightarrow> string" where
  "to_string n =
     (if n < 10 then [char_of (48 + n)]
      else to_string (n div 10) @ [char_of (48 + n mod 10)])"

declare to_string.simps [simp del]

text \<open>The value of a digit string, used to show that the rendering loses nothing.\<close>

definition dec_val :: "string \<Rightarrow> nat" where
  "dec_val s = foldl (\<lambda>a c. 10 * a + (of_char c - 48)) 0 s"

text \<open>
  A reading of \<^verbatim>\<open>std::chrono::steady_clock\<close> is an integer number of clock
  ticks since the clock's epoch; the default-constructed \<^verbatim>\<open>time_point{}\<close> is 0.
  The clock of the standard libraries in use ticks in nanoseconds.
\<close>

type_synonym time_point = int

definition ticks_per_sec :: int where
  "ticks_per_sec = 1000000000"

section \<open>State store (kernel/state\_store.cpp)\<close>

record StoredValue =
  val :: json
  expires_at :: time_point
  owner_agent_id :: "32 word"
  scope :: string

record StoreResult =
  success :: bool
  key :: string
  scope :: string

record FetchResult =
  success :: bool
  exists :: bool
  val :: json
  scope :: string

text \<open>
  \<^verbatim>\<open>store_\<close> is an \<^verbatim>\<open>unordered_map\<close>: keys are unique and the iteration
  order is whatever the hash table has. The association list stands for the table in
  its iteration order; \<open>map_of\<close> is \<^verbatim>\<open>find\<close>, \<open>AList.update\<close> is
  \<^verbatim>\<open>store_[k] = v\<close> and \<open>AList.delete\<close> is \<^verbatim>\<open>erase\<close>.
\<close>

type_synonym state_store = "(string \<times> StoredValue) list"

definition is_expired :: "time_point \<Rightarrow> StoredValue \<Rightarrow> bool" where
  "is_expired now e = (if expires_at e = 0 then False else now > expires_at e)"

definition can_access_key :: "32 word \<Rightarrow> StoredValue \<Rightarrow> bool" where
  "can_access_key agent_id v =
     (if StoredValue.scope v = ''global'' then True
      else if StoredValue.scope v = ''agent'' \<and> owner_agent_id v = agent_id then True
      else if StoredValue.scope v = ''session'' then True
      else False)"

definition make_agent_key :: "32 word \<Rightarrow> string \<Rightarrow> string" where
  "make_agent_key agent_id k = ''agent:'' @ to_string (unat agent_id) @ '':'' @ k"

text \<open>
  \<open>store\<close> reads the clock once (\<open>now\<close>). The TTL is a C \<^verbatim>\<open>int\<close> of seconds;
  adding it to the clock reading cannot overflow the 64-bit tick count for any
  clock reading a running machine produces, so the sum is taken in \<open>int\<close>.
\<close>

definition store ::
  "time_point \<Rightarrow> state_store \<Rightarrow> 32 word \<Rightarrow> string \<Rightarrow> json \<Rightarrow> string \<Rightarrow> int option
     \<Rightarrow> state_store \<times> StoreResult" where
  "store now st agent_id k v sc ttl_secs =
     (if k = [] then (st, \<lparr>StoreResult.success = False, key = [], scope = []\<rparr>)
      else
        let scope0 = (if sc = [] then ''global'' else sc);
            exp = (case ttl_secs of None \<Rightarrow> 0 | Some t \<Rightarrow> now + t * ticks_per_sec);
            scope1 = (if scope0 \<noteq> ''global'' \<and> scope0 \<noteq> ''agent'' \<and> scope0 \<noteq> ''session''
                      then ''global'' else scope0);
            store_key = (if scope1 = ''agent'' then make_agent_key agent_id k else k);
            entry = \<lparr>StoredValue.val = v, expires_at = exp, owner_agent_id = agent_id,
                     scope = scope1\<rparr>
        in (AList.update store_key entry st,
            \<lparr>StoreResult.success = True, key = k, scope = scope1\<rparr>))"

text \<open>The loop of \<open>fetch\<close> over \<^verbatim>\<open>keys_to_try\<close>; an expired entry is erased on the way.\<close>

fun fetch_loop ::
  "time_point \<Rightarrow> 32 word \<Rightarrow> state_store \<Rightarrow> string list \<Rightarrow> state_store \<times> FetchResult" where
  "fetch_loop now agent_id st [] =
     (st, \<lparr>FetchResult.success = True, exists = False, val = JNull, scope = []\<rparr>)"
| "fetch_loop now agent_id st (try_key # rest) =
     (case map_of st try_key of
        None \<Rightarrow> fetch_loop now agent_id st rest
      | Some e \<Rightarrow>
          if is_expired now e then fetch_loop now agent_id (AList.delete try_key st) rest
          else if \<not> can_access_key agent_id e then fetch_loop now agent_id st rest
          else (st, \<lparr>FetchResult.success = True, exists = True, val = StoredValue.val e,
                     scope = StoredValue.scope e\<rparr>))"

definition fetch ::
  "time_point \<Rightarrow> state_store \<Rightarrow> 32 word \<Rightarrow> string \<Rightarrow> state_store \<times> FetchResult" where
  "fetch now st agent_id k =
     (if k = [] then
        (st, \<lparr>FetchResult.success = False, exists = False, val = JNull, scope = []\<rparr>)
      else fetch_loop now agent_id st [k, make_agent_key agent_id k])"

text \<open>
  The name \<open>keys\<close> pushes for a physical key: a key that begins with \<^verbatim>\<open>agent:\<close>
  loses everything up to the first colon at index 6 or later, when there is one.
\<close>

definition visible_name :: "string \<Rightarrow> string" where
  "visible_name k =
     (if prefix ''agent:'' k then
        (if CHR '':'' \<in> set (drop 6 k)
         then tl (dropWhile (\<lambda>c. c \<noteq> CHR '':'') (drop 6 k))
         else k)
      else k)"

text \<open>
  The loop of \<open>keys\<close> over the table: the first component is what is left of the
  table (expired entries are erased while iterating), the second the names pushed.
\<close>

fun keys_loop ::
  "time_point \<Rightarrow> 32 word \<Rightarrow> string \<Rightarrow> state_store \<Rightarrow> state_store \<times> string list" where
  "keys_loop now agent_id pfx [] = ([], [])"
| "keys_loop now agent_id pfx ((k, e) # rest) =
     (let (st', ks) = keys_loop now agent_id pfx rest in
      if is_expired now e then (st', ks)
      else if \<not> can_access_key agent_id e then ((k, e) # st', ks)
      else if pfx = [] \<or> prefix pfx k then ((k, e) # st', visible_name k # ks)
      else ((k, e) # st', ks))"

definition keys :: "time_point \<Rightarrow> state_store \<Rightarrow> 32 word \<Rightarrow> string \<Rightarrow> state_store \<times> string list" where
  "keys now st agent_id pfx = keys_loop now agent_id pfx st"

text \<open>
  The scope an entry ends up with: the two adjustments \<open>store\<close> makes inline
  (empty means \<open>global\<close>, anything unknown means \<open>global\<close>), named for the proofs.
\<close>

definition effective_scope :: "string \<Rightarrow> string" where
  "effective_scope sc =
     (let scope0 = (if sc = [] then ''global'' else sc)
      in if scope0 \<noteq> ''global'' \<and> scope0 \<noteq> ''agent'' \<and> scope0 \<noteq> ''session''
         then ''global'' else scope0)"

section \<open>Agent supervisor (runtime/agent/manager.cpp, types.hpp)\<close>

datatype RestartPolicy = NEVER | ALWAYS | ON_FAILURE

text \<open>
  \<^verbatim>\<open>backoff_multiplier\<close> is a \<^verbatim>\<open>double\<close> and so is the running delay of
  \<open>calculate_backoff_delay\<close>. They are modelled by exact rationals: every
  \<^verbatim>\<open>double\<close> is a rational, and the products of the loop are taken without
  rounding. The code agrees with that wherever its products are representable (for
  instance for whole-number multipliers, where every product below the cap is a whole
  number under \<open>2 ^ 53\<close>).
\<close>

record RestartConfig =
  policy :: RestartPolicy
  max_restarts :: "32 word"
  restart_window_sec :: "32 word"
  backoff_initial_ms :: "32 word"
  backoff_max_ms :: "32 word"
  backoff_multiplier :: rat

text \<open>
  The \<^verbatim>\<open>for\<close> loop of \<open>calculate_backoff_delay\<close>, with the number of rounds left.
  The final \<^verbatim>\<open>static_cast<uint32_t>(delay)\<close> drops the fraction; the value that
  reaches it is below \<^verbatim>\<open>backoff_max_ms\<close>, and for a negative one (a negative
  multiplier) C++ leaves the cast undefined.
\<close>

fun backoff_loop :: "RestartConfig \<Rightarrow> rat \<Rightarrow> nat \<Rightarrow> 32 word" where
  "backoff_loop config delay 0 = word_of_int \<lfloor>delay\<rfloor>"
| "backoff_loop config delay (Suc n) =
     (let delay' = delay * backoff_multiplier config in
      if delay' \<ge> of_nat (unat (backoff_max_ms config)) then backoff_max_ms config
      else backoff_loop config delay' n)"

definition calculate_backoff_delay :: "RestartConfig \<Rightarrow> 32 word \<Rightarrow> 32 word" where
  "calculate_backoff_delay config consecutive_failures =
     (if consecutive_failures = 0 then backoff_initial_ms config
      else backoff_loop config (of_nat (unat (backoff_initial_ms config)))
             (unat consecutive_failures))"

record RestartState =
  restart_count :: "32 word"
  window_start :: time_point
  consecutive_failures :: "32 word"
  escalated :: bool


text \<open>
  Of an \<^verbatim>\<open>AgentConfig\<close> the supervisor reads only the restart configuration; the
  other fields (script, interpreter, socket, limits, isolation flags) are carried along
  untouched and are left out.
\<close>

record PendingRestart =
  agent_name :: string
  scheduled_time :: time_point
  config :: RestartConfig


definition ticks_per_ms :: int where
  "ticks_per_ms = 1000000"








text \<open>The configuration of the backoff example: 100 ms, doubling, capped at 1000 ms.\<close>

definition e4_config :: RestartConfig where
  "e4_config = \<lparr>policy = ALWAYS, max_restarts = 5, restart_window_sec = 300,
     backoff_initial_ms = 100, backoff_max_ms = 1000, backoff_multiplier = 2\<rparr>"







section \<open>Virtual filesystem (kernel/virtual\_fs.cpp)\<close>

record VirtualFile =
  content :: string
  mode :: string
  created_at :: time_point
  modified_at :: time_point

text \<open>
  \<^verbatim>\<open>files_\<close> is an \<^verbatim>\<open>unordered_map\<close>, modelled like the state store's table: an
  association list with distinct keys in the table's iteration order. The four
  counters are the \<^verbatim>\<open>mutable\<close> metrics, which also the \<^verbatim>\<open>const\<close> member
  \<open>read\<close> updates.
\<close>

record VirtualFilesystem =
  files :: "(string \<times> VirtualFile) list"
  readonly_patterns :: "string list"
  writable_patterns :: "string list"
  intercept_patterns :: "string list"
  read_count :: "64 word"
  write_count :: "64 word"
  bytes_read :: "64 word"
  bytes_written :: "64 word"

definition empty_vfs :: VirtualFilesystem where
  "empty_vfs = \<lparr>files = [], readonly_patterns = [], writable_patterns = [],
     intercept_patterns = [], read_count = 0, write_count = 0, bytes_read = 0,
     bytes_written = 0\<rparr>"

text \<open>The pieces of a string between occurrences of a separator.\<close>

fun split_on :: "char \<Rightarrow> string \<Rightarrow> string list" where
  "split_on c [] = [[]]"
| "split_on c (x # xs) =
     (if x = c then [] # split_on c xs
      else (case split_on c xs of
              [] \<Rightarrow> [[x]]
            | w # ws \<Rightarrow> (x # w) # ws))"

text \<open>
  One round of the \<^verbatim>\<open>getline\<close> loop of \<open>normalize_path\<close>. (\<^verbatim>\<open>getline\<close> yields
  no empty piece after a final slash; empty pieces are skipped anyway.)
\<close>

definition normalize_step :: "string list \<Rightarrow> string \<Rightarrow> string list" where
  "normalize_step parts part =
     (if part = [] \<or> part = ''.'' then parts
      else if part = ''..'' then (if parts \<noteq> [] then butlast parts else parts)
      else parts @ [part])"

fun join_parts :: "string list \<Rightarrow> string" where
  "join_parts [] = []"
| "join_parts [p] = p"
| "join_parts (p # q # ps) = p @ ''/'' @ join_parts (q # ps)"

definition normalize_path :: "string \<Rightarrow> string" where
  "normalize_path path =
     (if path = [] then ''/''
      else ''/'' @ join_parts (foldl normalize_step [] (split_on CHR ''/'' path)))"

text \<open>
  \<open>matches_pattern\<close> turns the glob into a regular expression and asks
  \<^verbatim>\<open>std::regex_match\<close> with \<^verbatim>\<open>icase\<close>. Every character of the glob becomes one
  of four regex pieces: \<^verbatim>\<open>**\<close> becomes \<^verbatim>\<open>.*\<close>, a single \<^verbatim>\<open>*\<close> becomes
  \<^verbatim>\<open>[^/]*\<close>, \<^verbatim>\<open>?\<close> becomes \<^verbatim>\<open>[^/]\<close>, and any other character stands for
  itself (the regex metacharacters are escaped). The model keeps the pieces and matches
  them directly: the whole string has to match, letters match without regard to case,
  and the dot of ECMAScript matches everything but a line terminator.
\<close>

datatype glob_piece = AnyPath | AnySegment | OneChar | Literal char

fun glob_pieces :: "string \<Rightarrow> glob_piece list" where
  "glob_pieces [] = []"
| "glob_pieces (c # cs) =
     (if c = CHR ''*'' then
        (case cs of
           [] \<Rightarrow> [AnySegment]
         | d # ds \<Rightarrow> if d = CHR ''*'' then AnyPath # glob_pieces ds
                     else AnySegment # glob_pieces cs)
      else if c = CHR ''?'' then OneChar # glob_pieces cs
      else Literal c # glob_pieces cs)"

definition to_lower :: "char \<Rightarrow> char" where
  "to_lower c =
     (if 65 \<le> (of_char c :: nat) \<and> (of_char c :: nat) \<le> 90 then char_of (of_char c + 32 :: nat)
      else c)"

definition line_terminator :: "char \<Rightarrow> bool" where
  "line_terminator c \<longleftrightarrow> c = CHR 0x0A \<or> c = CHR 0x0D"

fun regex_match :: "glob_piece list \<Rightarrow> string \<Rightarrow> bool" where
  "regex_match [] s = (s = [])"
| "regex_match (Literal c # ps) [] = False"
| "regex_match (Literal c # ps) (x # xs) = (to_lower c = to_lower x \<and> regex_match ps xs)"
| "regex_match (OneChar # ps) [] = False"
| "regex_match (OneChar # ps) (x # xs) = (x \<noteq> CHR ''/'' \<and> regex_match ps xs)"
| "regex_match (AnySegment # ps) [] = regex_match ps []"
| "regex_match (AnySegment # ps) (x # xs) =
     (regex_match ps (x # xs) \<or> (x \<noteq> CHR ''/'' \<and> regex_match (AnySegment # ps) xs))"
| "regex_match (AnyPath # ps) [] = regex_match ps []"
| "regex_match (AnyPath # ps) (x # xs) =
     (regex_match ps (x # xs) \<or> (\<not> line_terminator x \<and> regex_match (AnyPath # ps) xs))"

definition matches_pattern :: "string \<Rightarrow> string \<Rightarrow> bool" where
  "matches_pattern path pattern = regex_match (glob_pieces pattern) path"

definition matches_any :: "string \<Rightarrow> string list \<Rightarrow> bool" where
  "matches_any path patterns = list_ex (matches_pattern path) patterns"

definition vfs_exists :: "VirtualFilesystem \<Rightarrow> string \<Rightarrow> bool" where
  "vfs_exists fs path = (map_of (files fs) (normalize_path path) \<noteq> None)"

definition read :: "VirtualFilesystem \<Rightarrow> string \<Rightarrow> VirtualFilesystem \<times> string option" where
  "read fs path =
     (case map_of (files fs) (normalize_path path) of
        None \<Rightarrow> (fs, None)
      | Some f \<Rightarrow>
          (fs\<lparr>read_count := read_count fs + 1,
              bytes_read := bytes_read fs + of_nat (length (content f))\<rparr>,
           Some (content f)))"

text \<open>\<open>write\<close> (the name is taken in Isabelle, hence \<open>vfs_write\<close>).\<close>

definition vfs_write ::
  "time_point \<Rightarrow> VirtualFilesystem \<Rightarrow> string \<Rightarrow> string \<Rightarrow> bool \<Rightarrow> VirtualFilesystem \<times> bool" where
  "vfs_write now fs path cont append_flag =
     (let normalized = normalize_path path;
          it = map_of (files fs) normalized
      in
      if (case it of Some f \<Rightarrow> mode f = ''r'' | None \<Rightarrow> False) then (fs, False)
      else if \<not> matches_any normalized (writable_patterns fs) \<and> it = None
              \<and> writable_patterns fs \<noteq> [] then (fs, False)
      else
        let files' =
          (case it of
             None \<Rightarrow>
               AList.update normalized
                 \<lparr>content = cont, mode = ''rw'', created_at = now, modified_at = now\<rparr>
                 (files fs)
           | Some f \<Rightarrow>
               AList.update normalized
                 (f\<lparr>content := (if append_flag then content f @ cont else cont),
                    modified_at := now\<rparr>)
                 (files fs))
        in (fs\<lparr>files := files', write_count := write_count fs + 1,
               bytes_written := bytes_written fs + of_nat (length cont)\<rparr>, True))"

definition remove :: "VirtualFilesystem \<Rightarrow> string \<Rightarrow> VirtualFilesystem \<times> bool" where
  "remove fs path =
     (let normalized = normalize_path path in
      case map_of (files fs) normalized of
        None \<Rightarrow> (fs, False)
      | Some f \<Rightarrow>
          if mode f = ''r'' then (fs, False)
          else (fs\<lparr>files := AList.delete normalized (files fs)\<rparr>, True))"

definition list_files :: "VirtualFilesystem \<Rightarrow> string \<Rightarrow> string list" where
  "list_files fs pattern =
     sort (filter (\<lambda>path. pattern = ''*'' \<or> pattern = ''/**'' \<or> matches_pattern path pattern)
             (map fst (files fs)))"

definition is_writable :: "VirtualFilesystem \<Rightarrow> string \<Rightarrow> bool" where
  "is_writable fs path =
     (let normalized = normalize_path path in
      case map_of (files fs) normalized of
        Some f \<Rightarrow> mode f \<noteq> ''r''
      | None \<Rightarrow>
          if writable_patterns fs = [] then True
          else matches_any normalized (writable_patterns fs))"

definition is_readable :: "VirtualFilesystem \<Rightarrow> string \<Rightarrow> bool" where
  "is_readable fs path =
     (let normalized = normalize_path path in
      if map_of (files fs) normalized \<noteq> None then True
      else matches_any normalized (readonly_patterns fs)
           \<or> matches_any normalized (writable_patterns fs))"

definition should_intercept :: "VirtualFilesystem \<Rightarrow> string \<Rightarrow> bool" where
  "should_intercept fs path =
     (let normalized = normalize_path path in
      if map_of (files fs) normalized \<noteq> None then True
      else matches_any normalized (intercept_patterns fs))"

text \<open>
  The denial condition of \<open>write\<close> in words: the target exists read-only, or it does
  not exist while there are writable patterns and the normalized path matches none.
\<close>

definition write_denied :: "VirtualFilesystem \<Rightarrow> string \<Rightarrow> bool" where
  "write_denied fs path \<longleftrightarrow>
     (case map_of (files fs) (normalize_path path) of
        Some f \<Rightarrow> mode f = ''r''
      | None \<Rightarrow> writable_patterns fs \<noteq> []
                \<and> \<not> matches_any (normalize_path path) (writable_patterns fs))"

text \<open>A filesystem with one read-write file outside its only writable pattern.\<close>

definition rw_file :: VirtualFile where
  "rw_file = \<lparr>content = ''old'', mode = ''rw'', created_at = 1, modified_at = 1\<rparr>"

definition guarded_vfs :: VirtualFilesystem where
  "guarded_vfs = empty_vfs\<lparr>files := [(''/a'', rw_file)], writable_patterns := [''/data/*'']\<rparr>"

section \<open>JSON access as the handlers use it\<close>

text \<open>
  \<^verbatim>\<open>j.contains(key)\<close> is false on anything but an object; the \<^verbatim>\<open>const\<close>
  \<^verbatim>\<open>j[key]\<close> is only ever used behind it.
\<close>

definition json_contains :: "json \<Rightarrow> string \<Rightarrow> bool" where
  "json_contains j k = (case j of JObject kvs \<Rightarrow> map_of kvs k \<noteq> None | _ \<Rightarrow> False)"

definition json_at :: "json \<Rightarrow> string \<Rightarrow> json" where
  "json_at j k =
     (case j of
        JObject kvs \<Rightarrow> (case map_of kvs k of Some v \<Rightarrow> v | None \<Rightarrow> JNull)
      | _ \<Rightarrow> JNull)"

text \<open>
  Assignment to a member of a \<^verbatim>\<open>std::map\<close>: an existing key keeps its place, a new
  one goes where the ascending order of keys puts it.
\<close>

fun obj_insert :: "string \<Rightarrow> 'a \<Rightarrow> (string \<times> 'a) list \<Rightarrow> (string \<times> 'a) list" where
  "obj_insert k v [] = [(k, v)]"
| "obj_insert k v ((k', v') # rest) =
     (if k = k' then (k, v) # rest
      else if k < k' then (k, v) # (k', v') # rest
      else (k', v') # obj_insert k v rest)"

text \<open>
  The non-\<^verbatim>\<open>const\<close> \<^verbatim>\<open>j[key] = v\<close>: null turns into an object, an object gets the
  member, anything else raises \<^verbatim>\<open>type_error\<close>.
\<close>

definition json_set :: "json \<Rightarrow> string \<Rightarrow> json \<Rightarrow> error + json" where
  "json_set j k v =
     (case j of
        JNull \<Rightarrow> Inr (JObject [(k, v)])
      | JObject kvs \<Rightarrow> Inr (JObject (obj_insert k v kvs))
      | _ \<Rightarrow> Inl TypeError)"

text \<open>
  \<^verbatim>\<open>j.value(key, default)\<close> for a string default: raises unless \<open>j\<close> is an object,
  and raises when the member is there but is no string.
\<close>

definition value_string :: "json \<Rightarrow> string \<Rightarrow> string \<Rightarrow> error + string" where
  "value_string j k dflt =
     (case j of
        JObject kvs \<Rightarrow>
          (case map_of kvs k of
             None \<Rightarrow> Inr dflt
           | Some (JString s) \<Rightarrow> Inr s
           | Some _ \<Rightarrow> Inl TypeError)
      | _ \<Rightarrow> Inl TypeError)"

text \<open>\<^verbatim>\<open>j.value(key, json{})\<close>: the member itself, or null.\<close>

definition value_json :: "json \<Rightarrow> string \<Rightarrow> error + json" where
  "value_json j k =
     (case j of
        JObject kvs \<Rightarrow> (case map_of kvs k of None \<Rightarrow> Inr JNull | Some v \<Rightarrow> Inr v)
      | _ \<Rightarrow> Inl TypeError)"

text \<open>\<^verbatim>\<open>push_back(p.get<std::string>())\<close> over the elements of an array.\<close>

fun get_strings :: "json list \<Rightarrow> error + string list" where
  "get_strings [] = Inr []"
| "get_strings (JString s # rest) =
     (case get_strings rest of Inl e \<Rightarrow> Inl e | Inr ss \<Rightarrow> Inr (s # ss))"
| "get_strings (_ # rest) = Inl TypeError"

text \<open>The pattern lists are read only if the member is there and is an array.\<close>

definition string_array :: "json \<Rightarrow> string \<Rightarrow> error + string list" where
  "string_array j k =
     (if json_contains j k then
        (case json_at j k of JArray xs \<Rightarrow> get_strings xs | _ \<Rightarrow> Inr [])
      else Inr [])"

section \<open>Virtual filesystem: configuration and snapshots\<close>

text \<open>\<^verbatim>\<open>duration_cast<milliseconds>(t.time_since_epoch()).count()\<close>.\<close>

definition duration_ms :: "time_point \<Rightarrow> int" where
  "duration_ms t = sgn t * (\<bar>t\<bar> div ticks_per_ms)"

text \<open>
  The loop of \<open>configure\<close> over \<^verbatim>\<open>initial_files\<close>, in the object's order; the path is
  normalized, so a later member can replace an earlier one.
\<close>

fun initial_files ::
  "time_point \<Rightarrow> (string \<times> json) list \<Rightarrow> (string \<times> VirtualFile) list
     \<Rightarrow> error + (string \<times> VirtualFile) list" where
  "initial_files now [] acc = Inr acc"
| "initial_files now ((path, file_config) # rest) acc =
     (case (case file_config of
              JString s \<Rightarrow> Inr (s, ''rw'')
            | JObject kvs \<Rightarrow>
                (case value_string file_config ''content'' [] of
                   Inl e \<Rightarrow> Inl e
                 | Inr c \<Rightarrow>
                     (case value_string file_config ''mode'' ''rw'' of
                        Inl e \<Rightarrow> Inl e
                      | Inr m \<Rightarrow> Inr (c, m)))
            | _ \<Rightarrow> Inr ([], ''rw'')) of
        Inl e \<Rightarrow> Inl e
      | Inr (c, m) \<Rightarrow>
          initial_files now rest
            (AList.update (normalize_path path)
               \<lparr>content = c, mode = m, created_at = now, modified_at = now\<rparr> acc))"

definition configure :: "time_point \<Rightarrow> VirtualFilesystem \<Rightarrow> json \<Rightarrow> error + VirtualFilesystem" where
  "configure now fs cfg =
     (case (if json_contains cfg ''initial_files'' then
              (case json_at cfg ''initial_files'' of
                 JObject items \<Rightarrow> initial_files now items (files fs)
               | _ \<Rightarrow> Inr (files fs))
            else Inr (files fs)) of
        Inl e \<Rightarrow> Inl e
      | Inr fl \<Rightarrow>
     (case string_array cfg ''readonly_patterns'' of
        Inl e \<Rightarrow> Inl e
      | Inr ro \<Rightarrow>
     (case string_array cfg ''writable_patterns'' of
        Inl e \<Rightarrow> Inl e
      | Inr wr \<Rightarrow>
     (let ro' = readonly_patterns fs @ ro; wr' = writable_patterns fs @ wr in
      case (if json_contains cfg ''intercept_patterns''
               \<and> (case json_at cfg ''intercept_patterns'' of JArray xs \<Rightarrow> True | _ \<Rightarrow> False)
            then string_array cfg ''intercept_patterns''
            else if fl \<noteq> [] \<or> ro' \<noteq> [] \<or> wr' \<noteq> [] then Inr [''/**'']
            else Inr []) of
        Inl e \<Rightarrow> Inl e
      | Inr ic \<Rightarrow>
          Inr (fs\<lparr>files := fl, readonly_patterns := ro', writable_patterns := wr',
                 intercept_patterns := intercept_patterns fs @ ic\<rparr>)))))"

definition file_to_json :: "VirtualFile \<Rightarrow> json" where
  "file_to_json f =
     JObject (obj_insert ''modified_at'' (JInt (duration_ms (modified_at f)))
             (obj_insert ''created_at'' (JInt (duration_ms (created_at f)))
             (obj_insert ''mode'' (JString (mode f))
             (obj_insert ''content'' (JString (content f)) []))))"

definition files_to_json :: "(string \<times> VirtualFile) list \<Rightarrow> (string \<times> json) list" where
  "files_to_json fl = foldl (\<lambda>obj (path, f). obj_insert path (file_to_json f) obj) [] fl"

definition vfs_to_json :: "VirtualFilesystem \<Rightarrow> json" where
  "vfs_to_json fs =
     JObject (obj_insert ''intercept_patterns'' (JArray (map JString (intercept_patterns fs)))
             (obj_insert ''writable_patterns'' (JArray (map JString (writable_patterns fs)))
             (obj_insert ''readonly_patterns'' (JArray (map JString (readonly_patterns fs)))
             (obj_insert ''files'' (JObject (files_to_json (files fs))) []))))"

text \<open>
  The loop of \<open>from_json\<close> over the members of \<^verbatim>\<open>files\<close>; a restored file is a
  default-constructed \<^verbatim>\<open>VirtualFile\<close>, stamped with the current clock reading.
\<close>

fun files_from_json ::
  "time_point \<Rightarrow> (string \<times> json) list \<Rightarrow> (string \<times> VirtualFile) list
     \<Rightarrow> error + (string \<times> VirtualFile) list" where
  "files_from_json now [] acc = Inr acc"
| "files_from_json now ((path, file_json) # rest) acc =
     (case value_string file_json ''content'' [] of
        Inl e \<Rightarrow> Inl e
      | Inr c \<Rightarrow>
          (case value_string file_json ''mode'' ''rw'' of
             Inl e \<Rightarrow> Inl e
           | Inr m \<Rightarrow>
               files_from_json now rest
                 (AList.update path
                    \<lparr>content = c, mode = m, created_at = now, modified_at = now\<rparr> acc)))"

definition vfs_from_json :: "time_point \<Rightarrow> VirtualFilesystem \<Rightarrow> json \<Rightarrow> error + VirtualFilesystem" where
  "vfs_from_json now fs j =
     (case (if json_contains j ''files'' then
              (case json_at j ''files'' of
                 JObject items \<Rightarrow> files_from_json now items []
               | _ \<Rightarrow> Inr [])
            else Inr []) of
        Inl e \<Rightarrow> Inl e
      | Inr fl \<Rightarrow>
     (case string_array j ''readonly_patterns'' of
        Inl e \<Rightarrow> Inl e
      | Inr ro \<Rightarrow>
     (case string_array j ''writable_patterns'' of
        Inl e \<Rightarrow> Inl e
      | Inr wr \<Rightarrow>
     (case string_array j ''intercept_patterns'' of
        Inl e \<Rightarrow> Inl e
      | Inr ic \<Rightarrow>
          Inr (fs\<lparr>files := fl, readonly_patterns := ro, writable_patterns := wr,
                 intercept_patterns := ic\<rparr>)))))"

section \<open>Worlds (worlds/world\_engine.cpp)\<close>

text \<open>
  A world owns a virtual filesystem, a network mock and a chaos engine. The last two
  take no part in what is proved below and are left out, together with the metrics
  record; \<open>agents\<close> is the \<^verbatim>\<open>std::set<uint32_t>\<close> of members, kept as the ascending
  list without repetitions that iterating the set yields.
\<close>

record World =
  world_id :: string
  world_name :: string
  description :: string
  world_config :: json
  vfs :: VirtualFilesystem
  agents :: "32 word list"

definition new_World :: "string \<Rightarrow> World" where
  "new_World wid = \<lparr>world_id = wid, world_name = wid, description = [], world_config = JNull,
     vfs = empty_vfs, agents = []\<rparr>"

definition world_configure :: "time_point \<Rightarrow> World \<Rightarrow> json \<Rightarrow> error + World" where
  "world_configure now w cfg =
     (case value_string cfg ''name'' (world_id w) of
        Inl e \<Rightarrow> Inl e
      | Inr nm \<Rightarrow>
     (case value_string cfg ''description'' [] of
        Inl e \<Rightarrow> Inl e
      | Inr ds \<Rightarrow>
     (case (if json_contains cfg ''virtual_filesystem''
            then configure now (vfs w) (json_at cfg ''virtual_filesystem'')
            else Inr (vfs w)) of
        Inl e \<Rightarrow> Inl e
      | Inr fs \<Rightarrow>
          Inr (w\<lparr>world_config := cfg, world_name := nm, description := ds, vfs := fs\<rparr>))))"

definition add_agent :: "World \<Rightarrow> 32 word \<Rightarrow> World" where
  "add_agent w agent_id =
     w\<lparr>agents := (if agent_id \<in> set (agents w) then agents w else insort agent_id (agents w))\<rparr>"

definition remove_agent :: "World \<Rightarrow> 32 word \<Rightarrow> World" where
  "remove_agent w agent_id = w\<lparr>agents := removeAll agent_id (agents w)\<rparr>"

definition has_agent :: "World \<Rightarrow> 32 word \<Rightarrow> bool" where
  "has_agent w agent_id \<longleftrightarrow> agent_id \<in> set (agents w)"

definition agent_count :: "World \<Rightarrow> nat" where
  "agent_count w = length (agents w)"

definition world_to_json :: "World \<Rightarrow> json" where
  "world_to_json w =
     JObject (obj_insert ''agents'' (JArray (map (\<lambda>a. JInt (uint a)) (agents w)))
             (obj_insert ''vfs'' (vfs_to_json (vfs w))
             (obj_insert ''config'' (world_config w)
             (obj_insert ''description'' (JString (description w))
             (obj_insert ''name'' (JString (world_name w))
             (obj_insert ''id'' (JString (world_id w)) []))))))"

text \<open>\<^verbatim>\<open>agents_.insert(a.get<uint32_t>())\<close> over the elements of the array.\<close>

fun agents_from_json :: "json list \<Rightarrow> 32 word list \<Rightarrow> error + 32 word list" where
  "agents_from_json [] acc = Inr acc"
| "agents_from_json (JInt n # rest) acc =
     agents_from_json rest (if word_of_int n \<in> set acc then acc else insort (word_of_int n) acc)"
| "agents_from_json (JBool b # rest) acc =
     agents_from_json rest (if of_bool b \<in> set acc then acc else insort (of_bool b) acc)"
| "agents_from_json (_ # rest) acc = Inl TypeError"

definition world_from_json :: "time_point \<Rightarrow> World \<Rightarrow> json \<Rightarrow> error + World" where
  "world_from_json now w j =
     (case value_string j ''name'' (world_id w) of
        Inl e \<Rightarrow> Inl e
      | Inr nm \<Rightarrow>
     (case value_string j ''description'' [] of
        Inl e \<Rightarrow> Inl e
      | Inr ds \<Rightarrow>
     (case (if json_contains j ''vfs'' then vfs_from_json now (vfs w) (json_at j ''vfs'')
            else Inr (vfs w)) of
        Inl e \<Rightarrow> Inl e
      | Inr fs \<Rightarrow>
     (case (if json_contains j ''agents''
            then (case json_at j ''agents'' of
                    JArray xs \<Rightarrow> agents_from_json xs []
                  | _ \<Rightarrow> Inr [])
            else Inr []) of
        Inl e \<Rightarrow> Inl e
      | Inr ags \<Rightarrow>
          Inr (w\<lparr>world_name := nm, description := ds,
                 world_config := (if json_contains j ''config'' then json_at j ''config''
                                  else world_config w),
                 vfs := fs, agents := ags\<rparr>)))))"

record WorldEngine =
  worlds :: "string \<rightharpoonup> World"
  agent_to_world :: "32 word \<rightharpoonup> string"
  next_world_num :: "64 word"

definition new_WorldEngine :: WorldEngine where
  "new_WorldEngine = \<lparr>worlds = Map.empty, agent_to_world = Map.empty, next_world_num = 1\<rparr>"

text \<open>\<^verbatim>\<open>std::isalnum\<close> in the C locale.\<close>

definition is_alnum :: "char \<Rightarrow> bool" where
  "is_alnum c \<longleftrightarrow>
     (let n = (of_char c :: nat) in
      (48 \<le> n \<and> n \<le> 57) \<or> (65 \<le> n \<and> n \<le> 90) \<or> (97 \<le> n \<and> n \<le> 122))"

definition safe_chars :: "char \<Rightarrow> string" where
  "safe_chars c =
     (if is_alnum c \<or> c = CHR ''-'' \<or> c = CHR ''_'' then [to_lower c]
      else if c = CHR '' '' then ''-''
      else [])"

text \<open>\<^verbatim>\<open>setfill('0') << setw(4)\<close>: zeros in front, up to four characters.\<close>

definition pad4 :: "string \<Rightarrow> string" where
  "pad4 s = replicate (4 - length s) (CHR ''0'') @ s"

definition generate_world_id :: "WorldEngine \<Rightarrow> string \<Rightarrow> WorldEngine \<times> string" where
  "generate_world_id e nm =
     (let safe_name = concat (map safe_chars nm);
          safe_name = (if safe_name = [] then ''world'' else safe_name);
          safe_name = (if length safe_name > 32 then take 32 safe_name else safe_name)
      in (e\<lparr>next_world_num := next_world_num e + 1\<rparr>,
          safe_name @ ''-'' @ pad4 (to_string (unat (next_world_num e)))))"

text \<open>
  \<open>create_world\<close> returns the new id; an exception of \<open>configure\<close> leaves it before
  the world is inserted, with the counter already advanced.
\<close>

definition create_world ::
  "time_point \<Rightarrow> WorldEngine \<Rightarrow> string \<Rightarrow> json \<Rightarrow> WorldEngine \<times> (error + string)" where
  "create_world now e nm cfg =
     (let (e1, wid) = generate_world_id e nm in
      case world_configure now (new_World wid) cfg of
        Inl err \<Rightarrow> (e1, Inl err)
      | Inr w \<Rightarrow> (e1\<lparr>worlds := (worlds e1)(wid \<mapsto> w)\<rparr>, Inr wid))"

definition destroy_world :: "WorldEngine \<Rightarrow> string \<Rightarrow> bool \<Rightarrow> WorldEngine \<times> bool" where
  "destroy_world e wid force =
     (case worlds e wid of
        None \<Rightarrow> (e, False)
      | Some w \<Rightarrow>
          if \<not> force \<and> agent_count w > 0 then (e, False)
          else
            (e\<lparr>agent_to_world :=
                 foldl (\<lambda>m agent_id. m(agent_id := None)) (agent_to_world e) (agents w),
               worlds := (worlds e)(wid := None)\<rparr>, True))"

definition join_world :: "WorldEngine \<Rightarrow> 32 word \<Rightarrow> string \<Rightarrow> WorldEngine \<times> bool" where
  "join_world e agent_id wid =
     (case agent_to_world e agent_id of
        Some existing \<Rightarrow> (e, False)
      | None \<Rightarrow>
          (case worlds e wid of
             None \<Rightarrow> (e, False)
           | Some w \<Rightarrow>
               (e\<lparr>worlds := (worlds e)(wid \<mapsto> add_agent w agent_id),
                  agent_to_world := (agent_to_world e)(agent_id \<mapsto> wid)\<rparr>, True)))"

definition leave_world :: "WorldEngine \<Rightarrow> 32 word \<Rightarrow> WorldEngine \<times> bool" where
  "leave_world e agent_id =
     (case agent_to_world e agent_id of
        None \<Rightarrow> (e, False)
      | Some wid \<Rightarrow>
          (let e1 = e\<lparr>agent_to_world := (agent_to_world e)(agent_id := None)\<rparr> in
           case worlds e1 wid of
             Some w \<Rightarrow> (e1\<lparr>worlds := (worlds e1)(wid \<mapsto> remove_agent w agent_id)\<rparr>, True)
           | None \<Rightarrow> (e1, True)))"

text \<open>\<open>now_ms\<close> is the reading of the system clock in milliseconds.\<close>

definition snapshot_world :: "int \<Rightarrow> WorldEngine \<Rightarrow> string \<Rightarrow> (error + json) option" where
  "snapshot_world now_ms e wid =
     (case worlds e wid of
        None \<Rightarrow> None
      | Some w \<Rightarrow> Some (json_set (world_to_json w) ''snapshot_time'' (JInt now_ms)))"

definition restore_as ::
  "time_point \<Rightarrow> WorldEngine \<Rightarrow> json \<Rightarrow> string \<Rightarrow> WorldEngine \<times> (error + string option)" where
  "restore_as now e snapshot wid =
     (if worlds e wid \<noteq> None then (e, Inr None)
      else
        (case world_from_json now (new_World wid) snapshot of
           Inl err \<Rightarrow> (e, Inl err)
         | Inr w \<Rightarrow> (e\<lparr>worlds := (worlds e)(wid \<mapsto> w)\<rparr>, Inr (Some wid))))"

definition restore_world ::
  "time_point \<Rightarrow> WorldEngine \<Rightarrow> json \<Rightarrow> string \<Rightarrow> WorldEngine \<times> (error + string option)" where
  "restore_world now e snapshot new_world_id =
     (if new_world_id = [] then
        (case value_string snapshot ''name'' ''restored'' of
           Inl err \<Rightarrow> (e, Inl err)
         | Inr nm \<Rightarrow>
             (let (e1, wid) = generate_world_id e nm in restore_as now e1 snapshot wid))
      else restore_as now e snapshot new_world_id)"

text \<open>The four operations of the engine that change who is where, as a trace.\<close>

datatype world_op =
    Create time_point string json
  | Join "32 word" string
  | Leave "32 word"
  | Destroy string bool

fun apply_op :: "WorldEngine \<Rightarrow> world_op \<Rightarrow> WorldEngine" where
  "apply_op e (Create now nm cfg) = fst (create_world now e nm cfg)"
| "apply_op e (Join agent_id wid) = fst (join_world e agent_id wid)"
| "apply_op e (Leave agent_id) = fst (leave_world e agent_id)"
| "apply_op e (Destroy wid force) = fst (destroy_world e wid force)"

definition run_ops :: "world_op list \<Rightarrow> WorldEngine" where
  "run_ops ops = foldl apply_op new_WorldEngine ops"

text \<open>
  The consistency of the two tables of the engine: an entry of the agent-to-world map
  names an existing world that has the agent as a member, and every member of a world
  is mapped to that world.
\<close>

definition engine_inv :: "WorldEngine \<Rightarrow> bool" where
  "engine_inv e \<longleftrightarrow>
     (\<forall>a wid. agent_to_world e a = Some wid \<longrightarrow>
        (\<exists>w. worlds e wid = Some w \<and> a \<in> set (agents w)))
     \<and> (\<forall>wid w a. worlds e wid = Some w \<and> a \<in> set (agents w) \<longrightarrow>
          agent_to_world e a = Some wid)"

text \<open>
  Every world id in use was generated with a number below the counter \<open>c\<close>, which is
  what \<^verbatim>\<open>next_world_num_\<close> holds.
\<close>

definition fresh_inv :: "WorldEngine \<Rightarrow> nat \<Rightarrow> bool" where
  "fresh_inv e c \<longleftrightarrow>
     unat (next_world_num e) = c
     \<and> (\<forall>wid. worlds e wid \<noteq> None \<longrightarrow>
          (\<exists>sn n. wid = sn @ ''-'' @ pad4 (to_string n) \<and> n < c))"

fun is_Create :: "world_op \<Rightarrow> bool" where
  "is_Create (Create now nm cfg) = True"
| "is_Create _ = False"

text \<open>An engine with one world and one member, and a short trace of operations.\<close>

definition lab_world :: World where
  "lab_world = (new_World ''lab'')\<lparr>agents := [7]\<rparr>"

definition lab_engine :: WorldEngine where
  "lab_engine = \<lparr>worlds = [''lab'' \<mapsto> lab_world], agent_to_world = [7 \<mapsto> ''lab''],
     next_world_num = 2\<rparr>"

definition lab_ops :: "world_op list" where
  "lab_ops = [Create 0 ''Lab 1'' (JObject []), Join 7 ''lab-1-0001'', Create 0 ''b'' (JObject []),
              Join 7 ''b-0002'', Join 8 ''b-0002'', Leave 8, Destroy ''b-0002'' False]"

text \<open>A restored file: content and mode kept, both time stamps set to the restore time.\<close>

definition restamp :: "time_point \<Rightarrow> VirtualFile \<Rightarrow> VirtualFile" where
  "restamp now f = \<lparr>content = content f, mode = mode f, created_at = now, modified_at = now\<rparr>"

text \<open>
  The snapshot \<open>snapshot_world\<close> produces for a world: the members of \<open>to_json\<close> and
  the time of the snapshot.
\<close>

definition snapshot_of :: "int \<Rightarrow> World \<Rightarrow> json" where
  "snapshot_of now_ms w =
     JObject (obj_insert ''snapshot_time'' (JInt now_ms)
       (obj_insert ''agents'' (JArray (map (\<lambda>a. JInt (uint a)) (agents w)))
       (obj_insert ''vfs'' (vfs_to_json (vfs w))
       (obj_insert ''config'' (world_config w)
       (obj_insert ''description'' (JString (description w))
       (obj_insert ''name'' (JString (world_name w))
       (obj_insert ''id'' (JString (world_id w)) [])))))))"

text \<open>A world whose filesystem holds a read-only \<open>/etc/hosts\<close>.\<close>

definition hosts_world :: World where
  "hosts_world = (new_World ''lab'')\<lparr>vfs := empty_vfs\<lparr>
     files := [(''/etc/hosts'',
                \<lparr>content = ''127.0.0.1 x'', mode = ''r'', created_at = 1, modified_at = 1\<rparr>)],
     intercept_patterns := [''/**'']\<rparr>\<rparr>"

definition hosts_engine :: WorldEngine where
  "hosts_engine = \<lparr>worlds = [''lab'' \<mapsto> hosts_world], agent_to_world = Map.empty,
     next_world_num = 2\<rparr>"

section \<open>Event bus (kernel/event\_bus.cpp) and the emit syscall (kernel/syscalls/events.cpp)\<close>

datatype KernelEventType =
    AGENT_SPAWNED | AGENT_EXITED | AGENT_PAUSED | AGENT_RESUMED | AGENT_RESTARTING
  | AGENT_ESCALATED | MESSAGE_RECEIVED | STATE_CHANGED | SYSCALL_BLOCKED | RESOURCE_WARNING
  | CUSTOM

record KernelEvent =
  event_type :: KernelEventType
  data :: json
  timestamp :: time_point
  source_agent_id :: "32 word"

definition kernel_event_type_from_string :: "string \<Rightarrow> KernelEventType" where
  "kernel_event_type_from_string str =
     (if str = ''AGENT_SPAWNED'' then AGENT_SPAWNED
      else if str = ''AGENT_EXITED'' then AGENT_EXITED
      else if str = ''AGENT_PAUSED'' then AGENT_PAUSED
      else if str = ''AGENT_RESUMED'' then AGENT_RESUMED
      else if str = ''AGENT_RESTARTING'' then AGENT_RESTARTING
      else if str = ''AGENT_ESCALATED'' then AGENT_ESCALATED
      else if str = ''MESSAGE_RECEIVED'' then MESSAGE_RECEIVED
      else if str = ''STATE_CHANGED'' then STATE_CHANGED
      else if str = ''SYSCALL_BLOCKED'' then SYSCALL_BLOCKED
      else if str = ''RESOURCE_WARNING'' then RESOURCE_WARNING
      else CUSTOM)"

text \<open>
  \<^verbatim>\<open>subscriptions_\<close> is iterated by \<open>emit\<close>, so it is an association list in the
  table's iteration order (keys distinct); \<^verbatim>\<open>queues_\<close> is only looked up. A queue
  is the list of its events, front first.
\<close>

record EventBus =
  subscriptions :: "(32 word \<times> KernelEventType set) list"
  queues :: "32 word \<rightharpoonup> KernelEvent list"

text \<open>\<^verbatim>\<open>queues_[agent_id].push(event)\<close>: a missing queue is created empty first.\<close>

definition push_event ::
  "(32 word \<rightharpoonup> KernelEvent list) \<Rightarrow> 32 word \<Rightarrow> KernelEvent \<Rightarrow> (32 word \<rightharpoonup> KernelEvent list)" where
  "push_event qs agent_id ev =
     qs(agent_id \<mapsto> (case qs agent_id of None \<Rightarrow> [] | Some q \<Rightarrow> q) @ [ev])"

definition emit ::
  "time_point \<Rightarrow> EventBus \<Rightarrow> KernelEventType \<Rightarrow> json \<Rightarrow> 32 word \<Rightarrow> EventBus" where
  "emit now bus ty dat source =
     (let event = \<lparr>event_type = ty, data = dat, timestamp = now, source_agent_id = source\<rparr>
      in bus\<lparr>queues :=
           foldl (\<lambda>qs (agent_id, subs). if ty \<in> subs then push_event qs agent_id event else qs)
             (queues bus) (subscriptions bus)\<rparr>)"

definition subscribe :: "EventBus \<Rightarrow> 32 word \<Rightarrow> KernelEventType list \<Rightarrow> EventBus" where
  "subscribe bus agent_id types =
     bus\<lparr>subscriptions :=
        AList.update agent_id
          ((case map_of (subscriptions bus) agent_id of None \<Rightarrow> {} | Some s \<Rightarrow> s) \<union> set types)
          (subscriptions bus)\<rparr>"

text \<open>The events waiting for an agent.\<close>

definition queue_of :: "EventBus \<Rightarrow> 32 word \<Rightarrow> KernelEvent list" where
  "queue_of bus agent_id = (case queues bus agent_id of None \<Rightarrow> [] | Some q \<Rightarrow> q)"

text \<open>
  The two bodies a response of \<open>handle_emit\<close> can have. The failure body carries the
  text of the exception after \<^verbatim>\<open>invalid request: \<close>, which is the library's and is
  left out.
\<close>

definition emit_ok :: "string \<Rightarrow> json" where
  "emit_ok event_name =
     JObject (obj_insert ''event'' (JString event_name) (obj_insert ''success'' (JBool True) []))"

definition emit_failed :: json where
  "emit_failed =
     JObject (obj_insert ''error'' (JString ''invalid request: '')
             (obj_insert ''success'' (JBool False) []))"

text \<open>
  \<open>handle_emit\<close>; \<open>parsed\<close> is what \<^verbatim>\<open>json::parse\<close> makes of the payload of the
  message, \<open>agent_id\<close> the sender in its header. The event type is the constant
  \<open>CUSTOM\<close>; the requested name only goes into the data.
\<close>

definition handle_emit ::
  "time_point \<Rightarrow> EventBus \<Rightarrow> 32 word \<Rightarrow> error + json \<Rightarrow> EventBus \<times> json" where
  "handle_emit now bus agent_id parsed =
     (case parsed of
        Inl e \<Rightarrow> (bus, emit_failed)
      | Inr j \<Rightarrow>
     (case value_string j ''event'' ''CUSTOM'' of
        Inl e \<Rightarrow> (bus, emit_failed)
      | Inr event_name \<Rightarrow>
     (case value_json j ''data'' of
        Inl e \<Rightarrow> (bus, emit_failed)
      | Inr event_data \<Rightarrow>
     (case (if event_name \<noteq> ''CUSTOM''
            then json_set event_data ''custom_type'' (JString event_name)
            else Inr event_data) of
        Inl e \<Rightarrow> (bus, emit_failed)
      | Inr event_data' \<Rightarrow>
          (emit now bus CUSTOM event_data' agent_id, emit_ok event_name)))))"

text \<open>
  A bus with agent 1 subscribed to \<open>AGENT_SPAWNED\<close> and agent 2 to \<open>CUSTOM\<close>, and a
  request that asks for an event named \<open>AGENT_SPAWNED\<close>.
\<close>

definition two_bus :: EventBus where
  "two_bus = \<lparr>subscriptions = [(1, {AGENT_SPAWNED}), (2, {CUSTOM})], queues = Map.empty\<rparr>"

definition spawned_request :: json where
  "spawned_request =
     JObject [(''data'', JObject [(''n'', JInt 1)]), (''event'', JString ''AGENT_SPAWNED'')]"

section \<open>Facts about the decimal rendering\<close>

lemma dec_val_snoc: "dec_val (s @ [c]) = 10 * dec_val s + (of_char c - 48)"
  by (simp add: dec_val_def)

lemma dec_val_to_string: "dec_val (to_string n) = n"
proof (induction n rule: to_string.induct)
  case (1 n)
  show ?case
  proof (cases "n < 10")
    case True
    then show ?thesis
      by (subst to_string.simps) (simp add: dec_val_def)
  next
    case False
    have m: "(48 + n mod 10) mod 256 = 48 + n mod 10"
      by (rule mod_less) arith
    from False 1 have "dec_val (to_string (n div 10)) = n div 10" by simp
    with False m show ?thesis
      by (subst to_string.simps) (simp add: dec_val_snoc)
  qed
qed



lemma make_agent_key_neq_key: "make_agent_key a k \<noteq> k"
proof
  assume "make_agent_key a k = k"
  then have "length (make_agent_key a k) = length k" by simp
  then show False by (simp add: make_agent_key_def)
qed

section \<open>State store: scope isolation, expiry, key listing\<close>

lemma make_agent_key_eval: "make_agent_key 7 ''x'' = ''agent:7:x''"
  by code_simp

lemma map_of_update_other: "k' \<noteq> k \<Longrightarrow> map_of (AList.update k v al) k' = map_of al k'"
  by (simp add: update_conv')

lemma map_of_update_same: "map_of (AList.update k v al) k = Some v"
  by (simp add: update_conv')

lemma map_of_delete_other: "k' \<noteq> k \<Longrightarrow> map_of (AList.delete k al) k' = map_of al k'"
  by (simp add: delete_conv')



lemma effective_scope_cases:
  "effective_scope sc = ''global'' \<or> effective_scope sc = ''agent'' \<or> effective_scope sc = ''session''"
  unfolding effective_scope_def Let_def by (cases "sc = []") auto

lemma fst_store:
  "k \<noteq> [] \<Longrightarrow> fst (store now st a k v sc ttl) =
     AList.update (if effective_scope sc = ''agent'' then make_agent_key a k else k)
       \<lparr>StoredValue.val = v,
        expires_at = (case ttl of None \<Rightarrow> 0 | Some t \<Rightarrow> now + t * ticks_per_sec),
        owner_agent_id = a, scope = effective_scope sc\<rparr> st"
  unfolding store_def Let_def effective_scope_def by simp



text \<open>
  C1, as the claim states it, fails: an entry stored under \<open>k\<close> with a TTL of 0 seconds
  at clock reading 2000000000 is gone for a fetch one tick later.
\<close>

theorem nonpositive_ttl_counterexample:
  "\<not> exists (snd (fetch 2000000001
        (fst (store 2000000000 [] 1 ''k'' (JInt 5) ''global'' (Some 0))) 1 ''k''))"
  by (simp add: store_def fetch_def Let_def ticks_per_sec_def is_expired_def)

text \<open>
  C1, amended. For a non-empty key that holds nothing yet (neither as bare key nor as
  the caller's agent key): a store without TTL is permanent, the owner's fetch reports
  \<open>exists = true\<close> at every time; a store with a TTL \<open>s \<le> 0\<close> sets the expiry
  instant to \<open>now + s\<close> seconds, which is not after \<open>now\<close>, so the owner's fetch at any
  later time reports \<open>exists = false\<close> (unless that instant happens to be the
  clock's zero reading, which \<open>is_expired\<close> takes for "no expiry").
\<close>

theorem ttl_expiry:
  assumes k: "k \<noteq> []"
    and bare: "map_of st k = None"
    and own: "map_of st (make_agent_key a k) = None"
  shows "(\<forall>t. exists (snd (fetch t (fst (store now st a k v sc None)) a k)))
       \<and> (\<forall>s t. s \<le> 0 \<and> now + s * ticks_per_sec \<noteq> 0 \<and> now < t \<longrightarrow>
            \<not> exists (snd (fetch t (fst (store now st a k v sc (Some s))) a k)))"
proof (intro conjI allI impI)
  fix t
  let ?e = "\<lparr>StoredValue.val = v, expires_at = 0, owner_agent_id = a, scope = effective_scope sc\<rparr>"
  show "exists (snd (fetch t (fst (store now st a k v sc None)) a k))"
  proof (cases "effective_scope sc = ''agent''")
    case True
    then have s: "fst (store now st a k v sc None) = AList.update (make_agent_key a k) ?e st"
      using k by (simp add: fst_store)
    have 1: "map_of (AList.update (make_agent_key a k) ?e st) k = None"
      using bare make_agent_key_neq_key [of a k] by (simp add: map_of_update_other)
    have 2: "map_of (AList.update (make_agent_key a k) ?e st) (make_agent_key a k) = Some ?e"
      by (rule map_of_update_same)
    show ?thesis unfolding s fetch_def using k True 1 2
      by (simp add: is_expired_def can_access_key_def)
  next
    case False
    then have s: "fst (store now st a k v sc None) = AList.update k ?e st"
      using k by (simp add: fst_store)
    have 1: "map_of (AList.update k ?e st) k = Some ?e"
      by (rule map_of_update_same)
    have "can_access_key a ?e"
      using effective_scope_cases [of sc] False by (auto simp: can_access_key_def)
    then show ?thesis unfolding s fetch_def using k 1
      by (simp add: is_expired_def)
  qed
next
  fix s t
  assume h: "s \<le> 0 \<and> now + s * ticks_per_sec \<noteq> 0 \<and> now < t"
  have "0 \<le> ticks_per_sec" by (simp add: ticks_per_sec_def)
  with h have "s * ticks_per_sec \<le> 0" by (simp add: mult_le_0_iff)
  with h have lt: "now + s * ticks_per_sec < t" by simp
  let ?e = "\<lparr>StoredValue.val = v, expires_at = now + s * ticks_per_sec, owner_agent_id = a,
             scope = effective_scope sc\<rparr>"
  have ex: "is_expired t ?e" using h lt by (simp add: is_expired_def)
  show "\<not> exists (snd (fetch t (fst (store now st a k v sc (Some s))) a k))"
  proof (cases "effective_scope sc = ''agent''")
    case True
    then have s: "fst (store now st a k v sc (Some s)) = AList.update (make_agent_key a k) ?e st"
      using k by (simp add: fst_store)
    have 1: "map_of (AList.update (make_agent_key a k) ?e st) k = None"
      using bare make_agent_key_neq_key [of a k] by (simp add: map_of_update_other)
    have 2: "map_of (AList.update (make_agent_key a k) ?e st) (make_agent_key a k) = Some ?e"
      by (rule map_of_update_same)
    show ?thesis unfolding s fetch_def using k ex 1 2 True
      by simp
  next
    case False
    then have s: "fst (store now st a k v sc (Some s)) = AList.update k ?e st"
      using k by (simp add: fst_store)
    have 1: "map_of (AList.update k ?e st) k = Some ?e"
      by (rule map_of_update_same)
    have 2: "map_of (AList.delete k (AList.update k ?e st)) (make_agent_key a k) = None"
      using own make_agent_key_neq_key [of a k]
      by (simp add: map_of_delete_other map_of_update_other)
    show ?thesis unfolding s fetch_def using k ex 1 2
      by simp
  qed
qed



theorem ttl_expiry_witness:
  "exists (snd (fetch 5000 (fst (store 1000 [] 1 ''t'' (JString ''v'') ''global'' None)) 1 ''t''))
   \<and> (0::int) \<le> 0 \<and> 1000 + 0 * ticks_per_sec \<noteq> 0 \<and> (1000::int) < 1001
   \<and> \<not> exists (snd (fetch 1001
          (fst (store 1000 [] 1 ''t'' (JString ''v'') ''global'' (Some 0))) 1 ''t''))"
proof -
  have k: "''t'' \<noteq> []" by simp
  have e: "map_of ([] :: state_store) x = None" for x by simp
  have h: "(0::int) \<le> 0 \<and> 1000 + 0 * ticks_per_sec \<noteq> 0 \<and> (1000::int) < 1001"
    by (simp add: ticks_per_sec_def)
  from ttl_expiry [where k = "''t''" and st = "[]" and a = 1 and now = 1000
      and v = "JString ''v''" and sc = "''global''", OF k e e]
  have a: "exists (snd (fetch 5000 (fst (store 1000 [] 1 ''t'' (JString ''v'') ''global'' None)) 1 ''t''))"
    and b: "0 \<le> 0 \<and> 1000 + 0 * ticks_per_sec \<noteq> 0 \<and> (1000::int) < 1001 \<longrightarrow>
       \<not> exists (snd (fetch 1001
          (fst (store 1000 [] 1 ''t'' (JString ''v'') ''global'' (Some 0))) 1 ''t''))"
    by blast+
  from a b h show ?thesis by blast
qed

lemma store_agent7_x:
  "fst (store 0 [] 7 ''x'' (JInt 42) ''agent'' None) =
   [(''agent:7:x'',
     \<lparr>StoredValue.val = JInt 42, expires_at = 0, owner_agent_id = 7, scope = ''agent''\<rparr>)]"
  by (simp add: store_def Let_def make_agent_key_eval)

text \<open>
  C4. \<open>keys\<close> compares the prefix with the physical key and strips the
  \<^verbatim>\<open>agent:<id>:\<close> part only afterwards. Agent 7 stores \<open>x\<close> with scope \<open>agent\<close>:
  \<open>keys\<close> with prefix \<open>x\<close> returns nothing, although the user-visible name \<open>x\<close>
  starts with \<open>x\<close> and a fetch of \<open>x\<close> finds the entry; with the physical prefix
  \<^verbatim>\<open>agent:7:\<close> it returns \<open>x\<close>, which does not start with that prefix.
\<close>

theorem keys_prefix_physical:
  "snd (keys 0 (fst (store 0 [] 7 ''x'' (JInt 42) ''agent'' None)) 7 ''x'') = []
   \<and> snd (keys 0 (fst (store 0 [] 7 ''x'' (JInt 42) ''agent'' None)) 7 ''agent:7:'') = [''x'']
   \<and> exists (snd (fetch 0 (fst (store 0 [] 7 ''x'' (JInt 42) ''agent'' None)) 7 ''x''))"
  unfolding store_agent7_x
  by (simp add: keys_def fetch_def make_agent_key_eval is_expired_def
      can_access_key_def visible_name_def)

section \<open>Supervisor: backoff delay\<close>





text \<open>The delays of the example, computed by the code for failures 1 to 5.\<close>

lemma e4_unat:
  "unat (1 :: 32 word) = Suc 0" "unat (2 :: 32 word) = Suc (Suc 0)"
  "unat (3 :: 32 word) = Suc (Suc (Suc 0))" "unat (4 :: 32 word) = Suc (Suc (Suc (Suc 0)))"
  by simp_all

lemma e4_loop:
  "backoff_loop e4_config 100 (Suc 0) = 200"
  "backoff_loop e4_config 100 (Suc (Suc 0)) = 400"
  "backoff_loop e4_config 100 (Suc (Suc (Suc 0))) = 800"
  "backoff_loop e4_config 100 (Suc (Suc (Suc (Suc 0)))) = 1000"
  by (simp_all add: e4_config_def Let_def)

lemma backoff_e4:
  "calculate_backoff_delay e4_config 0 = 100"
  "calculate_backoff_delay e4_config 1 = 200"
  "calculate_backoff_delay e4_config 2 = 400"
  "calculate_backoff_delay e4_config 3 = 800"
  "calculate_backoff_delay e4_config 4 = 1000"
  unfolding calculate_backoff_delay_def e4_unat using e4_loop
  by (simp_all add: e4_config_def)

text \<open>
  With the multiplier 3/2 the fourth delay would be 337.5 ms; the code returns 337.
\<close>

lemma backoff_fraction_dropped:
  "calculate_backoff_delay (e4_config\<lparr>backoff_multiplier := 3 / 2\<rparr>) 3 = 337"
proof -
  have "\<lfloor>675 / 2 :: rat\<rfloor> = 337" by (simp add: floor_eq_iff)
  then have "backoff_loop (e4_config\<lparr>backoff_multiplier := 3 / 2\<rparr>) 100 (Suc (Suc (Suc 0))) = 337"
    by (simp add: e4_config_def Let_def)
  then show ?thesis
    unfolding calculate_backoff_delay_def e4_unat by (simp add: e4_config_def)
qed





section \<open>Supervisor: escalation after too many restarts\<close>









section \<open>Virtual filesystem: when a write is denied\<close>

lemma normalize_path_a: "normalize_path ''/a'' = ''/a''"
  by (simp add: normalize_path_def normalize_step_def)

lemma normalize_path_b: "normalize_path ''/b'' = ''/b''"
  by (simp add: normalize_path_def normalize_step_def)

lemma no_match_a: "\<not> matches_any ''/a'' [''/data/*'']"
  by (simp add: matches_any_def matches_pattern_def to_lower_def)

lemma no_match_b: "\<not> matches_any ''/b'' [''/data/*'']"
  by (simp add: matches_any_def matches_pattern_def to_lower_def)

text \<open>
  C3, as the claim states it, fails: with writable patterns that the path \<open>/a\<close> does
  not match, a write to the existing read-write file \<open>/a\<close> is not denied; it
  replaces the content.
\<close>

theorem write_denied_counterexample:
  "snd (vfs_write 5 guarded_vfs ''/a'' ''new'' False) = True
   \<and> writable_patterns guarded_vfs \<noteq> []
   \<and> \<not> matches_any (normalize_path ''/a'') (writable_patterns guarded_vfs)
   \<and> map (\<lambda>(p, f). (p, content f)) (files (fst (vfs_write 5 guarded_vfs ''/a'' ''new'' False)))
       = [(''/a'', ''new'')]"
  by (simp add: vfs_write_def guarded_vfs_def empty_vfs_def rw_file_def normalize_path_a
      no_match_a Let_def)

text \<open>
  C3, amended. \<open>write(p, c, append)\<close> is denied, returning false and leaving the
  filesystem as it was, exactly when the normalized target exists with mode \<open>r\<close>, or
  does not exist while \<open>writable_patterns\<close> is non-empty and the normalized path
  matches none of them. In every other case it returns true and the target holds:
  for a new file the content \<open>c\<close> with mode \<open>rw\<close>, for an existing one the content
  replaced by \<open>c\<close> or extended by it.
\<close>

theorem write_denied_iff:
  "vfs_write now fs path cont ap =
     (if write_denied fs path then (fs, False)
      else
        (fs\<lparr>files :=
             AList.update (normalize_path path)
               (case map_of (files fs) (normalize_path path) of
                  None \<Rightarrow> \<lparr>content = cont, mode = ''rw'', created_at = now, modified_at = now\<rparr>
                | Some f \<Rightarrow> f\<lparr>content := (if ap then content f @ cont else cont),
                               modified_at := now\<rparr>)
               (files fs),
            write_count := write_count fs + 1,
            bytes_written := bytes_written fs + of_nat (length cont)\<rparr>, True))"
  by (cases "map_of (files fs) (normalize_path path)")
     (auto simp: vfs_write_def write_denied_def Let_def)

theorem write_denied_iff_witness:
  "write_denied guarded_vfs ''/b'' \<and> vfs_write 5 guarded_vfs ''/b'' ''x'' False = (guarded_vfs, False)
   \<and> \<not> write_denied guarded_vfs ''/a'' \<and> snd (vfs_write 5 guarded_vfs ''/a'' ''new'' True)"
proof -
  have b: "write_denied guarded_vfs ''/b''"
    by (simp add: write_denied_def guarded_vfs_def empty_vfs_def normalize_path_b no_match_b)
  have a: "\<not> write_denied guarded_vfs ''/a''"
    by (simp add: write_denied_def guarded_vfs_def empty_vfs_def normalize_path_a rw_file_def)
  from b have 1: "vfs_write 5 guarded_vfs ''/b'' ''x'' False = (guarded_vfs, False)"
    by (simp only: write_denied_iff [of 5 guarded_vfs "''/b''" "''x''" False] if_True)
  from a have 2: "snd (vfs_write 5 guarded_vfs ''/a'' ''new'' True)"
    by (simp only: write_denied_iff [of 5 guarded_vfs "''/a''" "''new''" True] if_False snd_conv)
  from a b 1 2 show ?thesis by blast
qed

section \<open>World engine: destroying a world\<close>

lemma erase_all_apply:
  "foldl (\<lambda>m a. m(a := None)) m as x = (if x \<in> set as then None else m x)"
  by (induction as arbitrary: m) auto

text \<open>
  C7. For the id of an existing world: \<open>destroy_world\<close> without \<open>force\<close> refuses
  exactly when the world has members, and then changes nothing; with \<open>force\<close> it
  succeeds, the world is gone, no member has an entry in the agent-to-world map any
  more, and the other worlds and the entries of other agents are as before.
\<close>

theorem destroy_world_refuses_iff:
  assumes "worlds e wid = Some w"
  shows "(snd (destroy_world e wid False) = False \<longleftrightarrow> agent_count w > 0)
       \<and> (agent_count w > 0 \<longrightarrow> destroy_world e wid False = (e, False))
       \<and> snd (destroy_world e wid True) = True
       \<and> worlds (fst (destroy_world e wid True)) wid = None
       \<and> (\<forall>a \<in> set (agents w). agent_to_world (fst (destroy_world e wid True)) a = None)
       \<and> (\<forall>wid'. wid' \<noteq> wid \<longrightarrow> worlds (fst (destroy_world e wid True)) wid' = worlds e wid')
       \<and> (\<forall>a. a \<notin> set (agents w) \<longrightarrow>
            agent_to_world (fst (destroy_world e wid True)) a = agent_to_world e a)"
  using assms by (simp add: destroy_world_def erase_all_apply)

theorem destroy_world_refuses_iff_witness:
  "worlds lab_engine ''lab'' = Some lab_world
   \<and> agent_count lab_world > 0 \<and> 7 \<in> set (agents lab_world)
   \<and> destroy_world lab_engine ''lab'' False = (lab_engine, False)
   \<and> snd (destroy_world lab_engine ''lab'' True) = True
   \<and> worlds (fst (destroy_world lab_engine ''lab'' True)) ''lab'' = None
   \<and> agent_to_world (fst (destroy_world lab_engine ''lab'' True)) 7 = None"
proof -
  have 1: "worlds lab_engine ''lab'' = Some lab_world" by (simp add: lab_engine_def)
  have 2: "agent_count lab_world > 0" by (simp add: agent_count_def lab_world_def)
  have 3: "7 \<in> set (agents lab_world)" by (simp add: lab_world_def)
  from destroy_world_refuses_iff [OF 1] 2 3 1 show ?thesis by blast
qed

section \<open>World engine: one world per agent\<close>

lemma inv_join: "engine_inv e \<Longrightarrow> engine_inv (fst (join_world e a wid))"
  unfolding engine_inv_def join_world_def add_agent_def
  by (auto split: option.splits simp: set_insort_key; metis option.inject option.distinct(1))

lemma inv_leave: "engine_inv e \<Longrightarrow> engine_inv (fst (leave_world e a))"
  unfolding engine_inv_def leave_world_def remove_agent_def Let_def
  by (auto split: option.splits if_splits; metis option.inject option.distinct(1))

lemma inv_destroy: "engine_inv e \<Longrightarrow> engine_inv (fst (destroy_world e wid force))"
  unfolding engine_inv_def destroy_world_def
  by (auto split: option.splits if_splits simp: erase_all_apply agent_count_def;
      metis option.inject option.distinct(1) empty_iff empty_set)


lemma digit_not_dash: "d < 10 \<Longrightarrow> char_of (48 + d :: nat) \<noteq> CHR ''-''"
proof
  assume d: "d < 10" and "char_of (48 + d) = CHR ''-''"
  then have "(of_char (char_of (48 + d)) :: nat) = of_char (CHR ''-'')" by simp
  then have "(48 + d) mod 256 = 45" by simp
  with d show False by simp
qed

lemma to_string_no_dash: "CHR ''-'' \<notin> set (to_string n)"
proof (induction n rule: to_string.induct)
  case (1 n)
  show ?case
  proof (cases "n < 10")
    case True
    then show ?thesis
      using digit_not_dash [of n] by (subst to_string.simps) auto
  next
    case False
    have "n mod 10 < 10" by simp
    then have "char_of (48 + n mod 10) \<noteq> CHR ''-''" by (rule digit_not_dash)
    with False 1 show ?thesis
      by (subst to_string.simps) auto
  qed
qed

lemma pad4_no_dash: "CHR ''-'' \<notin> set (pad4 (to_string n))"
  using to_string_no_dash [of n] by (auto simp: pad4_def)

lemma dec_val_zeros: "dec_val (replicate k (CHR ''0'') @ s) = dec_val s"
proof (induction k)
  case 0
  show ?case by simp
next
  case (Suc k)
  have "dec_val (CHR ''0'' # t) = dec_val t" for t by (simp add: dec_val_def)
  with Suc show ?case by simp
qed

lemma pad4_to_string_inj: "pad4 (to_string m) = pad4 (to_string n) \<Longrightarrow> m = n"
proof -
  assume "pad4 (to_string m) = pad4 (to_string n)"
  then have "dec_val (pad4 (to_string m)) = dec_val (pad4 (to_string n))" by simp
  then show ?thesis by (simp add: pad4_def dec_val_zeros dec_val_to_string)
qed

lemma after_last_sep:
  assumes "c \<notin> set d" and "c \<notin> set d'" and "a @ c # d = a' @ c # d'"
  shows "d = d'"
proof -
  have "takeWhile (\<lambda>x. x \<noteq> c) (rev (a @ c # d)) = rev d"
    using assms(1) by (auto simp add: takeWhile_tail)
  moreover have "takeWhile (\<lambda>x. x \<noteq> c) (rev (a' @ c # d')) = rev d'"
    using assms(2) by (auto simp add: takeWhile_tail)
  ultimately have "rev d = rev d'" using assms(3) by simp
  then show ?thesis by simp
qed

lemma world_id_number:
  "sn @ ''-'' @ pad4 (to_string m) = sn' @ ''-'' @ pad4 (to_string n) \<Longrightarrow> m = n"
proof -
  assume "sn @ ''-'' @ pad4 (to_string m) = sn' @ ''-'' @ pad4 (to_string n)"
  then have "sn @ CHR ''-'' # pad4 (to_string m) = sn' @ CHR ''-'' # pad4 (to_string n)"
    by simp
  then have "pad4 (to_string m) = pad4 (to_string n)"
    by (rule after_last_sep [OF pad4_no_dash pad4_no_dash])
  then show ?thesis by (rule pad4_to_string_inj)
qed

lemma generate_world_id_form:
  "\<exists>sn. generate_world_id e nm =
     (e\<lparr>next_world_num := next_world_num e + 1\<rparr>,
      sn @ ''-'' @ pad4 (to_string (unat (next_world_num e))))"
  by (simp add: generate_world_id_def Let_def)

lemma world_configure_agents:
  "world_configure now w cfg = Inr w' \<Longrightarrow> agents w' = agents w"
  by (auto simp: world_configure_def split: sum.splits)

lemma create_world_cases:
  obtains (throws) err where
      "create_world now e nm cfg = (e\<lparr>next_world_num := next_world_num e + 1\<rparr>, Inl err)"
  | (created) sn w where
      "create_world now e nm cfg =
         (e\<lparr>next_world_num := next_world_num e + 1,
            worlds := (worlds e)(sn @ ''-'' @ pad4 (to_string (unat (next_world_num e))) \<mapsto> w)\<rparr>,
          Inr (sn @ ''-'' @ pad4 (to_string (unat (next_world_num e)))))"
      "agents w = []"
proof -
  obtain sn where g: "generate_world_id e nm =
     (e\<lparr>next_world_num := next_world_num e + 1\<rparr>,
      sn @ ''-'' @ pad4 (to_string (unat (next_world_num e))))"
    using generate_world_id_form by blast
  let ?wid = "sn @ ''-'' @ pad4 (to_string (unat (next_world_num e)))"
  show thesis
  proof (cases "world_configure now (new_World ?wid) cfg")
    case (Inl err)
    with g have "create_world now e nm cfg = (e\<lparr>next_world_num := next_world_num e + 1\<rparr>, Inl err)"
      by (simp add: create_world_def)
    then show ?thesis by (rule throws)
  next
    case (Inr w)
    with g have "create_world now e nm cfg =
         (e\<lparr>next_world_num := next_world_num e + 1, worlds := (worlds e)(?wid \<mapsto> w)\<rparr>, Inr ?wid)"
      by (simp add: create_world_def)
    moreover have "agents w = []"
      using world_configure_agents [OF Inr] by (simp add: new_World_def)
    ultimately show ?thesis by (rule created)
  qed
qed

lemma inv_create:
  assumes inv: "engine_inv e" and fr: "fresh_inv e c"
  shows "engine_inv (fst (create_world now e nm cfg))"
proof (cases rule: create_world_cases [of now e nm cfg])
  case (throws err)
  with inv show ?thesis by (simp add: engine_inv_def)
next
  case (created sn w)
  let ?wid = "sn @ ''-'' @ pad4 (to_string (unat (next_world_num e)))"
  have new: "worlds e ?wid = None"
  proof (rule ccontr)
    assume "worlds e ?wid \<noteq> None"
    with fr obtain sn' n where "?wid = sn' @ ''-'' @ pad4 (to_string n)" and "n < c"
      and "unat (next_world_num e) = c"
      unfolding fresh_inv_def by blast
    then show False using world_id_number [of sn "unat (next_world_num e)" sn' n] by simp
  qed
  from inv new created show ?thesis
    unfolding engine_inv_def
    by (auto; metis option.inject option.distinct(1))
qed

lemma fresh_create:
  assumes fr: "fresh_inv e c" and c: "c + 1 < 2 ^ 64"
  shows "fresh_inv (fst (create_world now e nm cfg)) (c + 1)"
proof -
  from fr have u: "unat (next_world_num e) = c" by (simp add: fresh_inv_def)
  have "unat (next_world_num e + 1) = c + 1"
    using u c by (simp add: unat_word_ariths)
  moreover have old: "\<forall>wid. worlds e wid \<noteq> None \<longrightarrow>
          (\<exists>sn n. wid = sn @ ''-'' @ pad4 (to_string n) \<and> n < c + 1)"
    using fr unfolding fresh_inv_def by (metis less_SucI Suc_eq_plus1)
  ultimately show ?thesis
  proof (cases rule: create_world_cases [of now e nm cfg])
    case (throws err)
    with \<open>unat (next_world_num e + 1) = c + 1\<close> old show ?thesis
      by (simp add: fresh_inv_def)
  next
    case (created sn w)
    have "\<exists>sn' n. sn @ ''-'' @ pad4 (to_string (unat (next_world_num e))) =
        sn' @ ''-'' @ pad4 (to_string n) \<and> n < c + 1"
      using u by (intro exI [of _ sn] exI [of _ c]) simp
    with created \<open>unat (next_world_num e + 1) = c + 1\<close> old show ?thesis
      by (simp add: fresh_inv_def)
  qed
qed


lemma fresh_join: "fresh_inv e c \<Longrightarrow> fresh_inv (fst (join_world e a wid)) c"
  unfolding fresh_inv_def join_world_def
  by (auto split: option.splits)

lemma fresh_leave: "fresh_inv e c \<Longrightarrow> fresh_inv (fst (leave_world e a)) c"
  unfolding fresh_inv_def leave_world_def Let_def
  by (auto split: option.splits)

lemma fresh_destroy: "fresh_inv e c \<Longrightarrow> fresh_inv (fst (destroy_world e wid force)) c"
  unfolding fresh_inv_def destroy_world_def
  by (auto split: option.splits)

lemma run_ops_snoc: "run_ops (ops @ [x]) = apply_op (run_ops ops) x"
  by (simp add: run_ops_def)

lemma run_ops_inv:
  "length (filter is_Create ops) + 1 < 2 ^ 64 \<Longrightarrow>
     engine_inv (run_ops ops) \<and> fresh_inv (run_ops ops) (1 + length (filter is_Create ops))"
proof (induction ops rule: rev_induct)
  case Nil
  show ?case
    by (simp add: run_ops_def new_WorldEngine_def engine_inv_def fresh_inv_def)
next
  case (snoc x ops)
  let ?c = "1 + length (filter is_Create ops)"
  from snoc.prems have "length (filter is_Create ops) + 1 < 2 ^ 64"
    by (cases x) auto
  with snoc.IH have inv: "engine_inv (run_ops ops)" and fr: "fresh_inv (run_ops ops) ?c"
    by simp_all
  show ?case
  proof (cases x)
    case (Create now nm cfg)
    with snoc.prems have "?c + 1 < 2 ^ 64" by simp
    with inv fr Create show ?thesis
      using inv_create [OF inv fr, of now nm cfg] fresh_create [OF fr, of now nm cfg]
      by (simp add: run_ops_snoc)
  next
    case (Join a wid)
    with inv fr show ?thesis
      by (simp add: run_ops_snoc inv_join fresh_join)
  next
    case (Leave a)
    with inv fr show ?thesis
      by (simp add: run_ops_snoc inv_leave fresh_leave)
  next
    case (Destroy wid force)
    with inv fr show ?thesis
      by (simp add: run_ops_snoc inv_destroy fresh_destroy)
  qed
qed

text \<open>
  C10. After any sequence of \<open>create_world\<close>, \<open>join_world\<close>, \<open>leave_world\<close> and
  \<open>destroy_world\<close> calls on a new engine (with fewer creations than the 64-bit id
  counter can count), the two tables are consistent: an agent has at most one entry
  in the agent-to-world map (it is a map); that entry, when there is one, names an
  existing world that has the agent as a member, and every member of
  a world is mapped to that world. Hence no agent is a member of two worlds; and
  \<open>join_world\<close> fails without changing anything when the agent already has an entry
  or the target world does not exist.
\<close>

theorem world_membership_invariant:
  assumes "length (filter is_Create ops) + 1 < 2 ^ 64"
  shows "engine_inv (run_ops ops)
       \<and> (\<forall>a i1 i2 w1 w2. worlds (run_ops ops) i1 = Some w1 \<and> a \<in> set (agents w1)
              \<and> worlds (run_ops ops) i2 = Some w2 \<and> a \<in> set (agents w2) \<longrightarrow> i1 = i2)
       \<and> (\<forall>a wid. agent_to_world (run_ops ops) a \<noteq> None \<or> worlds (run_ops ops) wid = None
              \<longrightarrow> join_world (run_ops ops) a wid = (run_ops ops, False))"
proof -
  from run_ops_inv [OF assms] have inv: "engine_inv (run_ops ops)" by simp
  have two: "\<forall>a i1 i2 w1 w2. worlds (run_ops ops) i1 = Some w1 \<and> a \<in> set (agents w1)
              \<and> worlds (run_ops ops) i2 = Some w2 \<and> a \<in> set (agents w2) \<longrightarrow> i1 = i2"
    using inv unfolding engine_inv_def by (metis option.inject)
  have join: "\<forall>a wid. agent_to_world (run_ops ops) a \<noteq> None \<or> worlds (run_ops ops) wid = None
              \<longrightarrow> join_world (run_ops ops) a wid = (run_ops ops, False)"
    by (auto simp: join_world_def split: option.splits)
  from inv two join show ?thesis by blast
qed

lemma lab_run:
  "agent_to_world (run_ops lab_ops) 7 = Some ''lab-1-0001''
   \<and> agent_to_world (run_ops lab_ops) 8 = None
   \<and> map_option agents (worlds (run_ops lab_ops) ''lab-1-0001'') = Some [7]
   \<and> worlds (run_ops lab_ops) ''b-0002'' = None"
  by code_simp


theorem world_membership_invariant_witness:
  "length (filter is_Create lab_ops) + 1 < 2 ^ 64
   \<and> engine_inv (run_ops lab_ops)
   \<and> agent_to_world (run_ops lab_ops) 7 \<noteq> None
   \<and> join_world (run_ops lab_ops) 7 ''b-0002'' = (run_ops lab_ops, False)"
proof -
  have 1: "length (filter is_Create lab_ops) + 1 < 2 ^ 64" by (simp add: lab_ops_def)
  have 2: "agent_to_world (run_ops lab_ops) 7 \<noteq> None" using lab_run by simp
  from world_membership_invariant [OF 1] 1 2 show ?thesis by blast
qed

section \<open>Worlds: snapshot and restore\<close>

lemma map_of_obj_insert:
  "map_of (obj_insert k v kvs) k' = (if k' = k then Some v else map_of kvs k')"
  by (induction kvs) auto

lemma keys_obj_insert: "fst ` set (obj_insert k v kvs) = insert k (fst ` set kvs)"
  unfolding dom_map_of_conv_image_fst [symmetric]
  by (auto simp: dom_def map_of_obj_insert split: if_splits)

lemma sorted_obj_insert:
  "sorted_wrt (<) (map fst kvs) \<Longrightarrow> sorted_wrt (<) (map fst (obj_insert k v kvs))"
proof (induction kvs)
  case Nil
  show ?case by simp
next
  case (Cons a kvs)
  obtain k' v' where a: "a = (k', v')" by (cases a)
  from Cons.prems have rest: "sorted_wrt (<) (map fst kvs)" and
    lt: "\<forall>x \<in> fst ` set kvs. k' < x" by (auto simp: a)
  show ?case
  proof (cases "k = k'")
    case True
    with Cons.prems show ?thesis by (simp add: a)
  next
    case False
    show ?thesis
    proof (cases "k < k'")
      case True
      with Cons.prems False lt show ?thesis by (auto simp: a)
    next
      case ge: False
      with False have "k' < k" by simp
      with lt have "\<forall>x \<in> fst ` set (obj_insert k v kvs). k' < x"
        by (simp add: keys_obj_insert)
      with False ge Cons.IH [OF rest] show ?thesis by (auto simp: a)
    qed
  qed
qed

lemma map_obj_insert:
  "map (\<lambda>(p, x). (p, h x)) (obj_insert k v kvs) = obj_insert k (h v) (map (\<lambda>(p, x). (p, h x)) kvs)"
  by (induction kvs) auto


lemma sort_distinct_eq:
  fixes xs ys :: "'a::linorder list"
  assumes "distinct xs" "distinct ys" "set xs = set ys"
  shows "sort xs = sort ys"
  by (rule sorted_distinct_set_unique) (simp_all add: assms)

lemma value_string_file:
  "value_string (file_to_json f) ''content'' d = Inr (content f)"
  "value_string (file_to_json f) ''mode'' d = Inr (mode f)"
  by (simp_all add: value_string_def file_to_json_def)

lemma files_to_json_snoc:
  "files_to_json (fl @ [(p, f)]) = obj_insert p (file_to_json f) (files_to_json fl)"
  by (simp add: files_to_json_def)

lemma files_to_json_sorted: "sorted_wrt (<) (map fst (files_to_json fl))"
proof (induction fl rule: rev_induct)
  case Nil
  show ?case by (simp add: files_to_json_def)
next
  case (snoc x fl)
  obtain p f where "x = (p, f)" by (cases x)
  with snoc show ?case by (simp add: files_to_json_snoc sorted_obj_insert)
qed

lemma files_to_json_lookup:
  "distinct (map fst fl) \<Longrightarrow> map_of (files_to_json fl) k = map_option file_to_json (map_of fl k)"
proof (induction fl rule: rev_induct)
  case Nil
  show ?case by (simp add: files_to_json_def)
next
  case (snoc x fl)
  obtain p f where x: "x = (p, f)" by (cases x)
  from snoc.prems x have d: "distinct (map fst fl)" and np: "p \<notin> fst ` set fl" by auto
  from np have none: "map_of fl p = None" by (simp add: map_of_eq_None_iff)
  show ?case
    using snoc.IH [OF d] none
    by (auto simp: x files_to_json_snoc map_of_obj_insert map_add_def split: option.splits)
qed

text \<open>What the loop of from_json makes of a list whose values are file objects.\<close>

lemma files_from_json_lookup:
  "(\<forall>(p, j) \<in> set items. \<exists>f. j = file_to_json f) \<Longrightarrow> distinct (map fst items) \<Longrightarrow>
   distinct (map fst acc) \<Longrightarrow>
   \<exists>fl. files_from_json now items acc = Inr fl \<and> distinct (map fst fl)
     \<and> (\<forall>k. map_of fl k =
          (case map_of items k of
             None \<Rightarrow> map_of acc k
           | Some j \<Rightarrow> Some \<lparr>content = (case value_string j ''content'' [] of Inr c \<Rightarrow> c | Inl e \<Rightarrow> []),
                            mode = (case value_string j ''mode'' ''rw'' of Inr c \<Rightarrow> c | Inl e \<Rightarrow> []),
                            created_at = now, modified_at = now\<rparr>))"
proof (induction items arbitrary: acc)
  case Nil
  then show ?case by simp
next
  case (Cons a items)
  obtain p j where a: "a = (p, j)" by (cases a)
  from Cons.prems(1) a obtain f where j: "j = file_to_json f" by auto
  let ?acc = "AList.update p \<lparr>content = content f, mode = mode f, created_at = now, modified_at = now\<rparr> acc"
  have step: "files_from_json now (a # items) acc = files_from_json now items ?acc"
    by (simp add: a j value_string_file)
  from Cons.prems a have 1: "\<forall>(p, j) \<in> set items. \<exists>f. j = file_to_json f"
    and 2: "distinct (map fst items)" and np: "p \<notin> fst ` set items" by auto
  have 3: "distinct (map fst ?acc)" using Cons.prems(3) by (rule distinct_update)
  from Cons.IH [OF 1 2 3] obtain fl where
    r: "files_from_json now items ?acc = Inr fl" and dl: "distinct (map fst fl)"
    and lk: "\<forall>k. map_of fl k =
          (case map_of items k of
             None \<Rightarrow> map_of ?acc k
           | Some j \<Rightarrow> Some \<lparr>content = (case value_string j ''content'' [] of Inr c \<Rightarrow> c | Inl e \<Rightarrow> []),
                            mode = (case value_string j ''mode'' ''rw'' of Inr c \<Rightarrow> c | Inl e \<Rightarrow> []),
                            created_at = now, modified_at = now\<rparr>)"
    by blast
  from np have none: "map_of items p = None" by (simp add: map_of_eq_None_iff)
  show ?case
    using r dl lk none
    by (auto simp: step a j value_string_file update_conv' split: option.splits)
qed


lemma files_roundtrip:
  assumes d: "distinct (map fst fl)"
  shows "\<exists>fl'. files_from_json now (files_to_json fl) [] = Inr fl' \<and> distinct (map fst fl')
     \<and> (\<forall>k. map_of fl' k = map_option (restamp now) (map_of fl k))"
proof -
  have dk: "distinct (map fst (files_to_json fl))"
    using files_to_json_sorted [of fl] by (simp add: strict_sorted_iff)
  have vals: "\<forall>(p, j) \<in> set (files_to_json fl). \<exists>f. j = file_to_json f"
  proof (clarify)
    fix p j assume "(p, j) \<in> set (files_to_json fl)"
    with dk have "map_of (files_to_json fl) p = Some j" by (rule map_of_is_SomeI)
    then show "\<exists>f. j = file_to_json f"
      by (auto simp: files_to_json_lookup [OF d])
  qed
  have "distinct (map fst ([] :: (string \<times> VirtualFile) list))" by simp
  from files_from_json_lookup [OF vals dk this, of now] obtain fl' where
    r: "files_from_json now (files_to_json fl) [] = Inr fl'" and dl: "distinct (map fst fl')"
    and lk: "\<forall>k. map_of fl' k =
          (case map_of (files_to_json fl) k of
             None \<Rightarrow> map_of [] k
           | Some j \<Rightarrow> Some \<lparr>content = (case value_string j ''content'' [] of Inr c \<Rightarrow> c | Inl e \<Rightarrow> []),
                            mode = (case value_string j ''mode'' ''rw'' of Inr c \<Rightarrow> c | Inl e \<Rightarrow> []),
                            created_at = now, modified_at = now\<rparr>)"
    by blast
  have "\<forall>k. map_of fl' k = map_option (restamp now) (map_of fl k)"
    using lk by (auto simp: files_to_json_lookup [OF d] value_string_file restamp_def
        split: option.splits)
  with r dl show ?thesis by blast
qed

lemma get_strings_map: "get_strings (map JString xs) = Inr xs"
  by (induction xs) auto

lemma vfs_json_members:
  "json_contains (vfs_to_json fs) ''files''"
  "json_at (vfs_to_json fs) ''files'' = JObject (files_to_json (files fs))"
  "string_array (vfs_to_json fs) ''readonly_patterns'' = Inr (readonly_patterns fs)"
  "string_array (vfs_to_json fs) ''writable_patterns'' = Inr (writable_patterns fs)"
  "string_array (vfs_to_json fs) ''intercept_patterns'' = Inr (intercept_patterns fs)"
  by (simp_all add: vfs_to_json_def json_contains_def json_at_def string_array_def
      map_of_obj_insert get_strings_map)

lemma vfs_roundtrip:
  assumes d: "distinct (map fst (files fs))"
  shows "\<exists>fl'. vfs_from_json now fs0 (vfs_to_json fs) =
       Inr (fs0\<lparr>files := fl', readonly_patterns := readonly_patterns fs,
               writable_patterns := writable_patterns fs,
               intercept_patterns := intercept_patterns fs\<rparr>)
     \<and> distinct (map fst fl')
     \<and> (\<forall>k. map_of fl' k = map_option (restamp now) (map_of (files fs) k))"
proof -
  from files_roundtrip [OF d, of now] obtain fl' where
    r: "files_from_json now (files_to_json (files fs)) [] = Inr fl'"
    and rest: "distinct (map fst fl')"
      "\<forall>k. map_of fl' k = map_option (restamp now) (map_of (files fs) k)"
    by blast
  have "vfs_from_json now fs0 (vfs_to_json fs) =
       Inr (fs0\<lparr>files := fl', readonly_patterns := readonly_patterns fs,
               writable_patterns := writable_patterns fs,
               intercept_patterns := intercept_patterns fs\<rparr>)"
    by (simp add: vfs_from_json_def vfs_json_members r)
  with rest show ?thesis by blast
qed

text \<open>Two filesystems with the same patterns and the same contents and modes.\<close>

lemma same_files_agree:
  assumes d: "distinct (map fst (files fs))" and d': "distinct (map fst (files fs'))"
    and lk: "\<forall>k. map_of (files fs') k = map_option (restamp now) (map_of (files fs) k)"
    and ro: "readonly_patterns fs' = readonly_patterns fs"
    and wr: "writable_patterns fs' = writable_patterns fs"
    and ic: "intercept_patterns fs' = intercept_patterns fs"
  shows "snd (read fs' p) = snd (read fs p)"
    and "list_files fs' pat = list_files fs pat"
    and "is_writable fs' p = is_writable fs p"
    and "is_readable fs' p = is_readable fs p"
    and "should_intercept fs' p = should_intercept fs p"
proof -
  show "snd (read fs' p) = snd (read fs p)"
    using lk by (auto simp: read_def restamp_def split: option.splits)
  have "dom (map_of (files fs')) = dom (map_of (files fs))"
    using lk by (auto simp: dom_def)
  then have "set (map fst (files fs')) = set (map fst (files fs))"
    by (simp add: dom_map_of_conv_image_fst)
  then show "list_files fs' pat = list_files fs pat"
    unfolding list_files_def using d d'
    by (intro sort_distinct_eq) auto
  show "is_writable fs' p = is_writable fs p"
    using lk wr by (auto simp: is_writable_def restamp_def Let_def split: option.splits)
  show "is_readable fs' p = is_readable fs p"
    using lk wr ro by (auto simp: is_readable_def Let_def)
  show "should_intercept fs' p = should_intercept fs p"
    using lk ic by (auto simp: should_intercept_def Let_def)
qed


lemma agents_from_json_total:
  "\<exists>r. agents_from_json (map (\<lambda>a. JInt (uint a)) as) acc = Inr r"
  by (induction as arbitrary: acc) auto

lemma snapshot_world_eq:
  "worlds e wid = Some w \<Longrightarrow> snapshot_world now_ms e wid = Some (Inr (snapshot_of now_ms w))"
  by (simp add: snapshot_world_def world_to_json_def json_set_def snapshot_of_def)

lemma snapshot_members:
  "value_string (snapshot_of now_ms w) ''name'' d = Inr (world_name w)"
  "value_string (snapshot_of now_ms w) ''description'' d = Inr (description w)"
  "json_contains (snapshot_of now_ms w) ''vfs''"
  "json_at (snapshot_of now_ms w) ''vfs'' = vfs_to_json (vfs w)"
  "json_contains (snapshot_of now_ms w) ''agents''"
  "json_at (snapshot_of now_ms w) ''agents'' = JArray (map (\<lambda>a. JInt (uint a)) (agents w))"
  by (simp_all add: snapshot_of_def value_string_def json_contains_def json_at_def
      map_of_obj_insert)

lemma world_roundtrip:
  assumes d: "distinct (map fst (files (vfs w)))"
  shows "\<exists>w'. world_from_json now (new_World wid') (snapshot_of now_ms w) = Inr w'
     \<and> distinct (map fst (files (vfs w')))
     \<and> (\<forall>k. map_of (files (vfs w')) k = map_option (restamp now) (map_of (files (vfs w)) k))
     \<and> readonly_patterns (vfs w') = readonly_patterns (vfs w)
     \<and> writable_patterns (vfs w') = writable_patterns (vfs w)
     \<and> intercept_patterns (vfs w') = intercept_patterns (vfs w)"
proof -
  from vfs_roundtrip [OF d, of now "vfs (new_World wid')"] obtain fl' where
    v: "vfs_from_json now (vfs (new_World wid')) (vfs_to_json (vfs w)) =
       Inr ((vfs (new_World wid'))\<lparr>files := fl', readonly_patterns := readonly_patterns (vfs w),
               writable_patterns := writable_patterns (vfs w),
               intercept_patterns := intercept_patterns (vfs w)\<rparr>)"
    and rest: "distinct (map fst fl')"
      "\<forall>k. map_of fl' k = map_option (restamp now) (map_of (files (vfs w)) k)"
    by blast
  from agents_from_json_total obtain ags where
    a: "agents_from_json (map (\<lambda>a. JInt (uint a)) (agents w)) [] = Inr ags" by blast
  show ?thesis
    using rest by (simp add: world_from_json_def snapshot_members v a)
qed

text \<open>
  C8. For every world of the engine (its file table holding each path once, as a hash
  table does): \<open>snapshot_world\<close> yields a snapshot, and \<open>restore_world\<close> of that
  snapshot, at any time and under any requested id, raises nothing; it succeeds
  whenever the requested id is free, and the world it creates has a filesystem that
  agrees with the original on \<open>read\<close> of every path, on \<open>list\<close> of every pattern,
  and on \<open>is_writable\<close>, \<open>is_readable\<close> and \<open>should_intercept\<close> of every path.
\<close>

theorem snapshot_restore_vfs:
  assumes w: "worlds e wid = Some w" and d: "distinct (map fst (files (vfs w)))"
  shows "\<exists>snap. snapshot_world now_ms e wid = Some (Inr snap)
     \<and> (\<forall>now nid. \<exists>e' r. restore_world now e snap nid = (e', Inr r)
          \<and> (nid \<noteq> [] \<and> worlds e nid = None \<longrightarrow> r = Some nid)
          \<and> (\<forall>wid'. r = Some wid' \<longrightarrow>
               (\<exists>w'. worlds e' wid' = Some w'
                  \<and> (\<forall>p. snd (read (vfs w') p) = snd (read (vfs w) p))
                  \<and> (\<forall>pat. list_files (vfs w') pat = list_files (vfs w) pat)
                  \<and> (\<forall>p. is_writable (vfs w') p = is_writable (vfs w) p)
                  \<and> (\<forall>p. is_readable (vfs w') p = is_readable (vfs w) p)
                  \<and> (\<forall>p. should_intercept (vfs w') p = should_intercept (vfs w) p))))"
proof -
  have snap: "snapshot_world now_ms e wid = Some (Inr (snapshot_of now_ms w))"
    using w by (rule snapshot_world_eq)
  have as: "\<exists>e' r. restore_as now e0 (snapshot_of now_ms w) i = (e', Inr r)
          \<and> (worlds e0 i = None \<longrightarrow> r = Some i)
          \<and> (\<forall>wid'. r = Some wid' \<longrightarrow>
               (\<exists>w'. worlds e' wid' = Some w'
                  \<and> (\<forall>p. snd (read (vfs w') p) = snd (read (vfs w) p))
                  \<and> (\<forall>pat. list_files (vfs w') pat = list_files (vfs w) pat)
                  \<and> (\<forall>p. is_writable (vfs w') p = is_writable (vfs w) p)
                  \<and> (\<forall>p. is_readable (vfs w') p = is_readable (vfs w) p)
                  \<and> (\<forall>p. should_intercept (vfs w') p = should_intercept (vfs w) p)))" for now e0 i
  proof (cases "worlds e0 i = None")
    case False
    then show ?thesis by (simp add: restore_as_def)
  next
    case True
    from world_roundtrip [OF d, of now i now_ms] obtain w' where
      r: "world_from_json now (new_World i) (snapshot_of now_ms w) = Inr w'"
      and d': "distinct (map fst (files (vfs w')))"
      and lk: "\<forall>k. map_of (files (vfs w')) k = map_option (restamp now) (map_of (files (vfs w)) k)"
      and ro: "readonly_patterns (vfs w') = readonly_patterns (vfs w)"
      and wr: "writable_patterns (vfs w') = writable_patterns (vfs w)"
      and ic: "intercept_patterns (vfs w') = intercept_patterns (vfs w)"
      by blast
    note ag = same_files_agree [OF d d' lk ro wr ic]
    from True r have "restore_as now e0 (snapshot_of now_ms w) i =
        (e0\<lparr>worlds := (worlds e0)(i \<mapsto> w')\<rparr>, Inr (Some i))"
      by (simp add: restore_as_def)
    then show ?thesis using ag by simp
  qed
  have "\<exists>e' r. restore_world now e (snapshot_of now_ms w) nid = (e', Inr r)
          \<and> (nid \<noteq> [] \<and> worlds e nid = None \<longrightarrow> r = Some nid)
          \<and> (\<forall>wid'. r = Some wid' \<longrightarrow>
               (\<exists>w'. worlds e' wid' = Some w'
                  \<and> (\<forall>p. snd (read (vfs w') p) = snd (read (vfs w) p))
                  \<and> (\<forall>pat. list_files (vfs w') pat = list_files (vfs w) pat)
                  \<and> (\<forall>p. is_writable (vfs w') p = is_writable (vfs w) p)
                  \<and> (\<forall>p. is_readable (vfs w') p = is_readable (vfs w) p)
                  \<and> (\<forall>p. should_intercept (vfs w') p = should_intercept (vfs w) p)))" for now nid
  proof (cases "nid = []")
    case False
    with as [of now e nid] show ?thesis by (simp add: restore_world_def)
  next
    case True
    obtain e1 i where g: "generate_world_id e (world_name w) = (e1, i)"
      by (cases "generate_world_id e (world_name w)")
    with True as [of now e1 i] show ?thesis
      by (auto simp add: restore_world_def snapshot_members)
  qed
  with snap show ?thesis by blast
qed


lemma normalize_path_hosts: "normalize_path ''/etc/hosts'' = ''/etc/hosts''"
  by (simp add: normalize_path_def normalize_step_def)

lemma hosts_vfs: "vfs hosts_world = empty_vfs\<lparr>
     files := [(''/etc/hosts'',
                \<lparr>content = ''127.0.0.1 x'', mode = ''r'', created_at = 1, modified_at = 1\<rparr>)],
     intercept_patterns := [''/**'']\<rparr>"
  by (simp add: hosts_world_def)

theorem snapshot_restore_vfs_witness:
  "worlds hosts_engine ''lab'' = Some hosts_world
   \<and> distinct (map fst (files (vfs hosts_world)))
   \<and> ''copy'' \<noteq> [] \<and> worlds hosts_engine ''copy'' = None
   \<and> (\<exists>snap e' w'. snapshot_world 9 hosts_engine ''lab'' = Some (Inr snap)
         \<and> restore_world 5 hosts_engine snap ''copy'' = (e', Inr (Some ''copy''))
         \<and> worlds e' ''copy'' = Some w'
         \<and> snd (read (vfs w') ''/etc/hosts'') = Some ''127.0.0.1 x''
         \<and> is_writable (vfs w') ''/etc/hosts'' = False)"
proof -
  have 1: "worlds hosts_engine ''lab'' = Some hosts_world" by (simp add: hosts_engine_def)
  have 2: "distinct (map fst (files (vfs hosts_world)))"
    by (simp add: hosts_vfs empty_vfs_def)
  have 3: "''copy'' \<noteq> [] \<and> worlds hosts_engine ''copy'' = None"
    by (simp add: hosts_engine_def)
  have 4: "snd (read (vfs hosts_world) ''/etc/hosts'') = Some ''127.0.0.1 x''"
    unfolding hosts_vfs by (simp add: read_def empty_vfs_def normalize_path_hosts)
  have 5: "is_writable (vfs hosts_world) ''/etc/hosts'' = False"
    unfolding hosts_vfs by (simp add: is_writable_def empty_vfs_def normalize_path_hosts)
  from snapshot_restore_vfs [OF 1 2, of 9] obtain snap where
    s: "snapshot_world 9 hosts_engine ''lab'' = Some (Inr snap)"
    and r: "\<forall>now nid. \<exists>e' r. restore_world now hosts_engine snap nid = (e', Inr r)
          \<and> (nid \<noteq> [] \<and> worlds hosts_engine nid = None \<longrightarrow> r = Some nid)
          \<and> (\<forall>wid'. r = Some wid' \<longrightarrow>
               (\<exists>w'. worlds e' wid' = Some w'
                  \<and> (\<forall>p. snd (read (vfs w') p) = snd (read (vfs hosts_world) p))
                  \<and> (\<forall>pat. list_files (vfs w') pat = list_files (vfs hosts_world) pat)
                  \<and> (\<forall>p. is_writable (vfs w') p = is_writable (vfs hosts_world) p)
                  \<and> (\<forall>p. is_readable (vfs w') p = is_readable (vfs hosts_world) p)
                  \<and> (\<forall>p. should_intercept (vfs w') p = should_intercept (vfs hosts_world) p)))"
    by (elim exE conjE)
  from r [THEN spec, THEN spec, of 5 "''copy''"] obtain e' r where
    a: "restore_world 5 hosts_engine snap ''copy'' = (e', Inr r)"
    and b: "''copy'' \<noteq> [] \<and> worlds hosts_engine ''copy'' = None \<longrightarrow> r = Some ''copy''"
    and c: "\<forall>wid'. r = Some wid' \<longrightarrow>
               (\<exists>w'. worlds e' wid' = Some w'
                  \<and> (\<forall>p. snd (read (vfs w') p) = snd (read (vfs hosts_world) p))
                  \<and> (\<forall>pat. list_files (vfs w') pat = list_files (vfs hosts_world) pat)
                  \<and> (\<forall>p. is_writable (vfs w') p = is_writable (vfs hosts_world) p)
                  \<and> (\<forall>p. is_readable (vfs w') p = is_readable (vfs hosts_world) p)
                  \<and> (\<forall>p. should_intercept (vfs w') p = should_intercept (vfs hosts_world) p))"
    by (elim exE conjE)
  from b 3 have r: "r = Some ''copy''" by (rule mp)
  from c [THEN spec, THEN mp, OF r] obtain w' where
    w: "worlds e' ''copy'' = Some w'"
    and rd: "\<forall>p. snd (read (vfs w') p) = snd (read (vfs hosts_world) p)"
    and iw: "\<forall>p. is_writable (vfs w') p = is_writable (vfs hosts_world) p"
    by (elim exE conjE)
  have 6: "snd (read (vfs w') ''/etc/hosts'') = Some ''127.0.0.1 x''"
    using rd [THEN spec, of "''/etc/hosts''"] 4 by (simp only:)
  have 7: "is_writable (vfs w') ''/etc/hosts'' = False"
    using iw [THEN spec, of "''/etc/hosts''"] 5 by (simp only:)
  from a r have a': "restore_world 5 hosts_engine snap ''copy'' = (e', Inr (Some ''copy''))"
    by (simp only:)
  have "\<exists>snap e' w'. snapshot_world 9 hosts_engine ''lab'' = Some (Inr snap)
         \<and> restore_world 5 hosts_engine snap ''copy'' = (e', Inr (Some ''copy''))
         \<and> worlds e' ''copy'' = Some w'
         \<and> snd (read (vfs w') ''/etc/hosts'') = Some ''127.0.0.1 x''
         \<and> is_writable (vfs w') ''/etc/hosts'' = False"
    by (intro exI [of _ snap] exI [of _ e'] exI [of _ w'] conjI s a' w 6 7)
  with 1 2 3 show ?thesis by (intro conjI) (elim conjE, assumption)+
qed

section \<open>Event bus: events emitted by agents\<close>

lemma emit_loop_queue:
  "distinct (map fst subs) \<Longrightarrow>
   (case foldl (\<lambda>qs (agent_id, s). if ty \<in> s then push_event qs agent_id ev else qs) qs subs b of
      None \<Rightarrow> [] | Some q \<Rightarrow> q) =
   (case qs b of None \<Rightarrow> [] | Some q \<Rightarrow> q)
     @ (if \<exists>s. map_of subs b = Some s \<and> ty \<in> s then [ev] else [])"
proof (induction subs arbitrary: qs)
  case Nil
  show ?case by simp
next
  case (Cons x subs)
  obtain a s where x: "x = (a, s)" by (cases x)
  from Cons.prems x have d: "distinct (map fst subs)" and na: "a \<notin> fst ` set subs" by auto
  from na have none: "map_of subs a = None" by (simp add: map_of_eq_None_iff)
  show ?case
    using Cons.IH [OF d] none
    by (auto simp: x push_event_def)
qed

lemma emit_queue_of:
  "distinct (map fst (subscriptions bus)) \<Longrightarrow>
   queue_of (emit now bus ty dat src) b =
     queue_of bus b
       @ (if \<exists>s. map_of (subscriptions bus) b = Some s \<and> ty \<in> s
          then [\<lparr>event_type = ty, data = dat, timestamp = now, source_agent_id = src\<rparr>]
          else [])"
  by (simp add: emit_def queue_of_def Let_def emit_loop_queue)

lemma emit_subscriptions: "subscriptions (emit now bus ty dat src) = subscriptions bus"
  by (simp add: emit_def Let_def)

lemma json_set_custom_type:
  "json_set dat ''custom_type'' v = Inr dat' \<Longrightarrow> json_at dat' ''custom_type'' = v"
  by (auto simp: json_set_def json_at_def map_of_obj_insert split: json.splits)

lemma emit_failed_success: "json_at emit_failed ''success'' = JBool False"
  by (simp add: emit_failed_def json_at_def)

lemma emit_ok_members:
  "json_at (emit_ok name) ''success'' = JBool True"
  "json_at (emit_ok name) ''event'' = JString name"
  by (simp_all add: emit_ok_def json_at_def)

text \<open>
  C9. Whenever \<open>handle_emit\<close> answers a parsed request with \<open>success = true\<close>, there is
  one event, of type \<open>CUSTOM\<close> whatever name was requested, with the sender as
  source; when the requested name is not \<open>CUSTOM\<close> the data of the event holds it
  under \<open>custom_type\<close>; the response repeats the name. The event is appended to the
  queue of exactly the agents whose subscription set contains \<open>CUSTOM\<close>: the queue
  of an agent subscribed to other types only stays as it was.
\<close>

theorem emit_is_custom:
  assumes d: "distinct (map fst (subscriptions bus))"
    and h: "handle_emit now bus agent_id (Inr j) = (bus', resp)"
    and ok: "json_at resp ''success'' = JBool True"
  shows "\<exists>name ev.
       value_string j ''event'' ''CUSTOM'' = Inr name
     \<and> json_at resp ''event'' = JString name
     \<and> event_type ev = CUSTOM \<and> source_agent_id ev = agent_id
     \<and> (name \<noteq> ''CUSTOM'' \<longrightarrow> json_at (data ev) ''custom_type'' = JString name)
     \<and> (\<forall>b. queue_of bus' b =
            queue_of bus b
              @ (if \<exists>s. map_of (subscriptions bus) b = Some s \<and> CUSTOM \<in> s then [ev] else []))
     \<and> subscriptions bus' = subscriptions bus"
proof -
  from h ok obtain name where n: "value_string j ''event'' ''CUSTOM'' = Inr name"
    by (cases "value_string j ''event'' ''CUSTOM''")
       (auto simp: handle_emit_def emit_failed_success)
  from h ok n obtain dat where dt: "value_json j ''data'' = Inr dat"
    by (cases "value_json j ''data''")
       (auto simp: handle_emit_def emit_failed_success)
  let ?set = "if name \<noteq> ''CUSTOM'' then json_set dat ''custom_type'' (JString name) else Inr dat"
  from h ok n dt obtain dat' where s: "?set = Inr dat'"
    by (cases ?set) (auto simp: handle_emit_def emit_failed_success)
  from h n dt s have b: "bus' = emit now bus CUSTOM dat' agent_id" and r: "resp = emit_ok name"
    by (auto simp: handle_emit_def)
  let ?ev = "\<lparr>event_type = CUSTOM, data = dat', timestamp = now, source_agent_id = agent_id\<rparr>"
  have ct: "name \<noteq> ''CUSTOM'' \<longrightarrow> json_at (data ?ev) ''custom_type'' = JString name"
    using s by (auto dest: json_set_custom_type)
  have q: "\<forall>b. queue_of bus' b =
            queue_of bus b
              @ (if \<exists>s. map_of (subscriptions bus) b = Some s \<and> CUSTOM \<in> s then [?ev] else [])"
    unfolding b by (simp add: emit_queue_of [OF d])
  have sb: "subscriptions bus' = subscriptions bus"
    unfolding b by (rule emit_subscriptions)
  have re: "json_at resp ''event'' = JString name" unfolding r by (rule emit_ok_members)
  show ?thesis
    using ct q by (intro exI [of _ name] exI [of _ ?ev]) (simp add: n re sb)
qed


theorem emit_is_custom_witness:
  "distinct (map fst (subscriptions two_bus))
   \<and> (\<exists>bus' resp ev. handle_emit 5 two_bus 9 (Inr spawned_request) = (bus', resp)
        \<and> json_at resp ''success'' = JBool True
        \<and> event_type ev = CUSTOM
        \<and> json_at (data ev) ''custom_type'' = JString ''AGENT_SPAWNED''
        \<and> queue_of bus' 1 = [] \<and> queue_of bus' 2 = [ev])"
proof -
  have d: "distinct (map fst (subscriptions two_bus))" by (simp add: two_bus_def)
  obtain bus' resp where h: "handle_emit 5 two_bus 9 (Inr spawned_request) = (bus', resp)"
    by (cases "handle_emit 5 two_bus 9 (Inr spawned_request)")
  have "snd (handle_emit 5 two_bus 9 (Inr spawned_request)) = emit_ok ''AGENT_SPAWNED''"
    by (simp add: handle_emit_def spawned_request_def value_string_def value_json_def
        json_set_def)
  with h have ok: "json_at resp ''success'' = JBool True"
    by (simp add: emit_ok_members)
  have n: "value_string spawned_request ''event'' ''CUSTOM'' = Inr ''AGENT_SPAWNED''"
    by (simp add: spawned_request_def value_string_def)
  have q0: "queue_of two_bus 1 = []" "queue_of two_bus 2 = []"
    by (simp_all add: queue_of_def two_bus_def)
  have s1: "\<not> (\<exists>s. map_of (subscriptions two_bus) 1 = Some s \<and> CUSTOM \<in> s)"
    by (simp add: two_bus_def)
  have s2: "\<exists>s. map_of (subscriptions two_bus) 2 = Some s \<and> CUSTOM \<in> s"
    by (simp add: two_bus_def)
  from emit_is_custom [OF d h ok] obtain name ev where
    n': "value_string spawned_request ''event'' ''CUSTOM'' = Inr name"
    and ty: "event_type ev = CUSTOM"
    and ct: "name \<noteq> ''CUSTOM'' \<longrightarrow> json_at (data ev) ''custom_type'' = JString name"
    and q: "\<forall>b. queue_of bus' b =
            queue_of two_bus b
              @ (if \<exists>s. map_of (subscriptions two_bus) b = Some s \<and> CUSTOM \<in> s then [ev] else [])"
    by (elim exE conjE)
  from n n' have name: "name = ''AGENT_SPAWNED''" by simp
  with ct have ct': "json_at (data ev) ''custom_type'' = JString ''AGENT_SPAWNED''" by simp
  from q [THEN spec, of 1] s1 q0 have q1: "queue_of bus' 1 = []" by (simp only: if_False append_Nil)
  from q [THEN spec, of 2] s2 q0 have q2: "queue_of bus' 2 = [ev]" by (simp only: if_True append_Nil)
  have "\<exists>bus' resp ev. handle_emit 5 two_bus 9 (Inr spawned_request) = (bus', resp)
        \<and> json_at resp ''success'' = JBool True
        \<and> event_type ev = CUSTOM
        \<and> json_at (data ev) ''custom_type'' = JString ''AGENT_SPAWNED''
        \<and> queue_of bus' 1 = [] \<and> queue_of bus' 2 = [ev]"
    by (intro exI [of _ bus'] exI [of _ resp] exI [of _ ev] conjI h ok ty ct' q1 q2)
  with d show ?thesis by (rule conjI)
qed

end
